theory Spec2Isabelle
  imports Complex_Main "HOL-Library.Sublist" "HOL-Library.Word"
begin
section \<open>Machine integers, failures and the log\<close>

text \<open>
  The integer types of the source on its 64-bit target: \<open>size_t\<close> and \<open>cl_ulong\<close> are
  unsigned 64-bit, \<open>int\<close> and \<open>cl_int\<close> signed 32-bit. A conversion from \<open>int\<close> to
  \<open>size_t\<close> sign-extends (\<^term>\<open>scast\<close>), a conversion from \<open>size_t\<close> to \<open>int\<close> keeps the
  low 32 bits (\<^term>\<open>ucast\<close>).
\<close>

type_synonym size_t = "64 word"
type_synonym c_int = "32 word"
type_synonym cl_int = "32 word"
type_synonym cl_ulong = "64 word"

text \<open>
  Ways in which the run stops: every fatal exit of the source is a value. \<open>LengthError\<close>
  stands for the exception with which the string library leaves an operation whose result
  would be longer than a string can be (\<open>std::length_error\<close>, or \<open>std::bad_alloc\<close> when
  memory runs out first); nothing in the source catches it.
\<close>

datatype failure =
    ClError cl_int
  | PreconditionViolated
  | DivisionByZero
  | SignedOverflow
  | ConversionOutOfRange
  | LengthError

datatype mem_flags = CL_MEM_READ_ONLY | CL_MEM_WRITE_ONLY

datatype profiling_info = CL_PROFILING_COMMAND_START | CL_PROFILING_COMMAND_END

datatype kernel_arg = InputImage | OutputImage | LocalMemory size_t

text \<open>
  What the program does to the outside, in order: the lines it prints and the calls it
  makes to the compute platform, with the arguments the claims are about.
\<close>

datatype event =
    Print string
  | PrintWorkgroupMaxSize size_t c_int
  | PrintInputSize int
  | PrintGlobalSize size_t
  | PrintAvgKernelDuration int
  | CreateProgramWithSource string
  | BuildProgram
  | CreateKernel
  | GetKernelWorkGroupInfo
  | ReleaseKernel
  | ReleaseProgram
  | GetPlatformIDs
  | GetDeviceIDs
  | CreateContext
  | CreateCommandQueue
  | GetDeviceInfo
  | CreateImage mem_flags size_t
  | EnqueueWriteImage size_t
  | SetKernelArg nat kernel_arg
  | EnqueueNDRangeKernel size_t size_t
  | WaitForEvents
  | GetEventProfilingInfo profiling_info
  | EnqueueReadImage size_t
  | VerifyVectorsAreEqual "complex list" "complex list" real
  | ReleaseMemObject mem_flags
  | Flush
  | Finish
  | ReleaseCommandQueue
  | ReleaseContext

definition CL_SUCCESS :: cl_int where
  "CL_SUCCESS = 0"

text \<open>
  Modelled from the spec: the macro \<open>CHECK_CL_ERROR\<close> is defined outside the source file;
  the spec makes every non-success status of a platform call fatal. A straight-line run of
  platform calls, each followed by \<open>CHECK_CL_ERROR\<close>, is a list of the calls with the
  status each one returns: the calls are logged up to and including the first that does
  not succeed, and that status is the failure.
\<close>

fun CHECK_CL_ERROR :: "(event \<times> cl_int) list \<Rightarrow> event list \<times> failure option" where
  "CHECK_CL_ERROR [] = ([], None)"
| "CHECK_CL_ERROR ((call, ret) # calls) =
     (if ret \<noteq> CL_SUCCESS then ([call], Some (ClError ret))
      else (call # fst (CHECK_CL_ERROR calls), snd (CHECK_CL_ERROR calls)))"

section \<open>Text substitution: \<open>ReplaceString\<close>\<close>

text \<open>
  The kernel source template and the instantiated source are \<open>std::string\<close> values,
  modelled as \<^typ>\<open>string\<close>. Positions and lengths are \<open>size_t\<close> values bounded by the
  length of a string held in memory, so they are modelled as \<^typ>\<open>nat\<close>;
  \<open>std::string::npos\<close> is \<^term>\<open>None\<close>. A \<open>std::string\<close> cannot grow without bound: the
  greatest length the library and the memory allow is the parameter \<open>max_size\<close> of the
  operations that build a string.
\<close>

text \<open>Offset of the first occurrence of \<open>search\<close> in a text, scanning from its start.\<close>

fun find_first :: "string \<Rightarrow> string \<Rightarrow> nat option" where
  "find_first search [] = (if search = [] then Some 0 else None)"
| "find_first search (c # cs) =
     (if prefix search (c # cs) then Some 0 else map_option Suc (find_first search cs))"

text \<open>
  \<open>subject.find(search, pos)\<close>: the lowest position not below \<open>pos\<close> where \<open>search\<close>
  occurs, \<open>npos\<close> when there is none or when \<open>pos\<close> is past the end. An empty \<open>search\<close>
  is found at \<open>pos\<close> itself whenever \<open>pos\<close> is at most the length.
\<close>

definition string_find :: "string \<Rightarrow> string \<Rightarrow> nat \<Rightarrow> nat option" where
  "string_find subject search pos =
     (if length subject < pos then None
      else map_option (\<lambda>i. pos + i) (find_first search (drop pos subject)))"

text \<open>
  \<open>subject.replace(pos, len, str)\<close> for \<open>pos\<close> within the string: the \<open>len\<close> characters
  from \<open>pos\<close> (fewer when the string ends before) are replaced by \<open>str\<close>. The operation
  throws when the result would be longer than \<open>max_size\<close>.
\<close>

definition string_replace :: "nat \<Rightarrow> string \<Rightarrow> nat \<Rightarrow> nat \<Rightarrow> string \<Rightarrow> failure + string" where
  "string_replace max_size subject pos len str =
     (if max_size < length (take pos subject @ str @ drop (pos + len) subject)
      then Inl LengthError
      else Inr (take pos subject @ str @ drop (pos + len) subject))"

text \<open>
  The \<open>while\<close> loop of \<open>ReplaceString\<close>, with the loop variables \<open>subject\<close> and \<open>pos\<close>
  as arguments. The loop has no bound in the source, so it is a partial function:
  \<^term>\<open>None\<close> is a loop that never ends, \<open>Some (Inl err)\<close> a loop left by an exception and
  \<open>Some (Inr s)\<close> the return of \<open>s\<close>.
\<close>

partial_function (option) ReplaceString_loop ::
  "nat \<Rightarrow> string \<Rightarrow> string \<Rightarrow> string \<Rightarrow> nat \<Rightarrow> (failure + string) option" where
  "ReplaceString_loop max_size subject search replace pos =
     (case string_find subject search pos of
        None \<Rightarrow> Some (Inr subject)
      | Some found \<Rightarrow>
         (case string_replace max_size subject found (length search) replace of
            Inl err \<Rightarrow> Some (Inl err)
          | Inr replaced \<Rightarrow>
              ReplaceString_loop max_size replaced search replace (found + length replace)))"

declare ReplaceString_loop.simps [code]

definition ReplaceString :: "nat \<Rightarrow> string \<Rightarrow> string \<Rightarrow> string \<Rightarrow> (failure + string) option" where
  "ReplaceString max_size subject search replace =
     ReplaceString_loop max_size subject search replace 0"

section \<open>Template Instantiator\<close>

text \<open>\<open>std::to_string\<close> on an \<open>int\<close>: decimal digits, with a minus sign when negative.\<close>

definition digit_char :: "nat \<Rightarrow> char" where
  "digit_char d = ''0123456789'' ! d"

fun nat_digits :: "nat \<Rightarrow> string" where
  "nat_digits n =
     (if n < 10 then [digit_char n] else nat_digits (n div 10) @ [digit_char (n mod 10)])"

definition to_string :: "int \<Rightarrow> string" where
  "to_string i = (if i < 0 then CHR ''-'' # nat_digits (nat (- i)) else nat_digits (nat i))"

text \<open>
  Modelled from the spec: \<open>power_of_two_exponent\<close> is declared outside the source file;
  the spec calls its result the base-2 logarithm of the butterfly count.
\<close>

fun power_of_two_exponent :: "nat \<Rightarrow> nat" where
  "power_of_two_exponent n = (if n < 2 then 0 else Suc (power_of_two_exponent (n div 2)))"

text \<open>The four placeholder tokens, in the order in which the constructor replaces them.\<close>

datatype placeholder = MINUS_PI_over_N_GLOBAL | N_GLOBAL | LOG2_N_GLOBAL | N_LOCAL

fun token :: "placeholder \<Rightarrow> string" where
  "token MINUS_PI_over_N_GLOBAL = ''replace_MINUS_PI_over_N_GLOBAL_BUTTERFLIES''"
| "token N_GLOBAL = ''replace_N_GLOBAL_BUTTERFLIES''"
| "token LOG2_N_GLOBAL = ''replace_LOG2_N_GLOBAL_BUTTERFLIES''"
| "token N_LOCAL = ''replace_N_LOCAL_BUTTERFLIES''"

text \<open>
  The text that replaces each token. \<open>buf\<close> is what \<open>snprintf\<close> wrote for
  \<open>(float)(-M_PI/nButterflies)\<close> under \<open>%a\<close>; floating point is outside this model, so the
  text is an argument.
\<close>

fun substitute :: "string \<Rightarrow> c_int \<Rightarrow> c_int \<Rightarrow> placeholder \<Rightarrow> string" where
  "substitute buf nButterflies nButterfliesPerThread MINUS_PI_over_N_GLOBAL = buf"
| "substitute buf nButterflies nButterfliesPerThread N_GLOBAL = to_string (sint nButterflies)"
| "substitute buf nButterflies nButterfliesPerThread LOG2_N_GLOBAL =
     to_string (int (power_of_two_exponent (nat (sint nButterflies))))"
| "substitute buf nButterflies nButterfliesPerThread N_LOCAL =
     to_string (sint nButterfliesPerThread)"

text \<open>
  One \<open>ReplaceString\<close> applied to the result of another: when the first does not return or
  throws, so does the whole.
\<close>

definition and_replace ::
  "(failure + string) option \<Rightarrow> (string \<Rightarrow> (failure + string) option) \<Rightarrow> (failure + string) option" where
  "and_replace r f =
     (case r of None \<Rightarrow> None | Some (Inl err) \<Rightarrow> Some (Inl err) | Some (Inr s) \<Rightarrow> f s)"

text \<open>
  Replacing the placeholders one after the other in a given order, each \<open>ReplaceString\<close>
  working on the result of the one before.
\<close>

fun replace_in_order ::
  "nat \<Rightarrow> (placeholder \<Rightarrow> string) \<Rightarrow> placeholder list \<Rightarrow> string \<Rightarrow> (failure + string) option" where
  "replace_in_order max_size val [] src = Some (Inr src)"
| "replace_in_order max_size val (h # hs) src =
     and_replace (ReplaceString max_size src (token h) (val h)) (replace_in_order max_size val hs)"

text \<open>The nested \<open>ReplaceString\<close> calls of the constructor: innermost first.\<close>

definition replaced_str ::
  "nat \<Rightarrow> string \<Rightarrow> string \<Rightarrow> c_int \<Rightarrow> c_int \<Rightarrow> (failure + string) option" where
  "replaced_str max_size kernel_src buf nButterflies nButterfliesPerThread =
     and_replace (ReplaceString max_size kernel_src (token MINUS_PI_over_N_GLOBAL) buf) (\<lambda>s1.
     and_replace (ReplaceString max_size s1 (token N_GLOBAL) (to_string (sint nButterflies))) (\<lambda>s2.
     and_replace (ReplaceString max_size s2 (token LOG2_N_GLOBAL)
        (to_string (int (power_of_two_exponent (nat (sint nButterflies)))))) (\<lambda>s3.
     ReplaceString max_size s3 (token N_LOCAL) (to_string (sint nButterfliesPerThread)))))"

section \<open>Configuration Prober\<close>

text \<open>
  The compute platform and the C and C++ libraries as the constructor sees them. A
  platform call returns a status; the maximum work-group size is reported per compiled
  kernel. The answers may depend on the source that was compiled and on how many
  compilations came before (the trial number), so both are arguments.
  \<open>string_max_size\<close> is the greatest length of a \<open>std::string\<close>.
\<close>

record platform =
  string_max_size :: nat
  angle_literal :: "c_int \<Rightarrow> string"
  createProgramWithSource :: "nat \<Rightarrow> string \<Rightarrow> cl_int"
  buildProgram :: "nat \<Rightarrow> string \<Rightarrow> cl_int"
  createKernel :: "nat \<Rightarrow> string \<Rightarrow> cl_int"
  getKernelWorkGroupInfo :: "nat \<Rightarrow> string \<Rightarrow> cl_int"
  workgroup_max_sz :: "nat \<Rightarrow> string \<Rightarrow> size_t"
  releaseKernel :: "nat \<Rightarrow> cl_int"
  releaseProgram :: "nat \<Rightarrow> cl_int"

text \<open>
  The fields of \<open>ScopedKernel\<close>. The handles \<open>program\<close> and \<open>kernel\<close> are identified by the
  number of the trial that created them.
\<close>

record ScopedKernel =
  program :: nat
  kernel :: nat
  nButterfliesPerThread :: c_int

text \<open>\<open>ScopedKernel::release\<close> for the handles created by trial \<open>k\<close>.\<close>

definition release :: "platform \<Rightarrow> nat \<Rightarrow> event list \<times> failure option" where
  "release p k =
     CHECK_CL_ERROR [(ReleaseKernel, releaseKernel p k), (ReleaseProgram, releaseProgram p k)]"

text \<open>The platform calls of one trial, from creating the program to the capacity query.\<close>

definition compile :: "platform \<Rightarrow> nat \<Rightarrow> string \<Rightarrow> event list \<times> failure option" where
  "compile p k src =
     CHECK_CL_ERROR
       [(CreateProgramWithSource src, createProgramWithSource p k src),
        (BuildProgram, buildProgram p k src),
        (CreateKernel, createKernel p k src),
        (GetKernelWorkGroupInfo, getKernelWorkGroupInfo p k src)]"

text \<open>
  The capacity test \<open>nButterflies > nButterfliesPerThread * workgroup_max_sz\<close>: both \<open>int\<close>
  operands are converted to \<open>size_t\<close>, the product and the comparison are unsigned.
\<close>

definition over_capacity :: "c_int \<Rightarrow> c_int \<Rightarrow> size_t \<Rightarrow> bool" where
  "over_capacity nButterflies perThread wg \<longleftrightarrow>
     (scast perThread :: size_t) * wg < scast nButterflies"

text \<open>
  The next estimate \<open>nButterflies / workgroup_max_sz\<close>: an unsigned division whose result
  is stored in an \<open>int\<close>.
\<close>

definition next_estimate :: "c_int \<Rightarrow> size_t \<Rightarrow> c_int" where
  "next_estimate nButterflies wg = ucast ((scast nButterflies :: size_t) div wg)"

text \<open>
  The \<open>for(nButterfliesPerThread = 1;;)\<close> loop of the constructor. It has no bound, so it
  is a partial function. \<open>k\<close> counts the trials and \<open>out\<close> is what happened so far. A
  division by a zero work-group size has no defined result and is a failure, and so is an
  exception thrown while the source text is built.
\<close>

partial_function (option) ScopedKernel_loop ::
  "platform \<Rightarrow> string \<Rightarrow> c_int \<Rightarrow> nat \<Rightarrow> c_int \<Rightarrow> event list \<Rightarrow>
     (event list \<times> (failure + ScopedKernel)) option" where
  "ScopedKernel_loop p kernel_src nButterflies k perThread out =
     (case replaced_str (string_max_size p) kernel_src (angle_literal p nButterflies)
             nButterflies perThread of
        None \<Rightarrow> None
      | Some (Inl err) \<Rightarrow> Some (out, Inl err)
      | Some (Inr src) \<Rightarrow>
         (case compile p k src of
            (calls, Some err) \<Rightarrow> Some (out @ calls, Inl err)
          | (calls, None) \<Rightarrow>
             (let wg = workgroup_max_sz p k src;
                  out1 = out @ calls @ [PrintWorkgroupMaxSize wg perThread]
              in if over_capacity nButterflies perThread wg then
                   (case release p k of
                      (rel, Some err) \<Rightarrow> Some (out1 @ rel, Inl err)
                    | (rel, None) \<Rightarrow>
                        if wg = 0 then Some (out1 @ rel, Inl DivisionByZero)
                        else ScopedKernel_loop p kernel_src nButterflies (Suc k)
                               (next_estimate nButterflies wg) (out1 @ rel))
                 else Some (out1, Inr \<lparr>program = k, kernel = k, nButterfliesPerThread = perThread\<rparr>))))"

declare ScopedKernel_loop.simps [code]

text \<open>The constructor: \<open>nButterflies\<close> is \<open>input_size/2\<close> stored in an \<open>int\<close>.\<close>

definition ScopedKernel_ctor ::
  "platform \<Rightarrow> string \<Rightarrow> size_t \<Rightarrow> (event list \<times> (failure + ScopedKernel)) option" where
  "ScopedKernel_ctor p kernel_src input_size =
     ScopedKernel_loop p kernel_src (ucast (input_size div 2)) 0 1 []"

text \<open>
  What one run of the loop adds to the log: every program is created from a text that
  the instantiation returned for some count, and the first thing logged is the creation of
  the program for the count of the first trial.
\<close>

definition loop_log_ok ::
  "platform \<Rightarrow> string \<Rightarrow> c_int \<Rightarrow> c_int \<Rightarrow> event list \<Rightarrow> event list \<times> (failure + ScopedKernel) \<Rightarrow> bool" where
  "loop_log_ok p kernel_src nB n out0 y \<longleftrightarrow>
     (\<exists>evs. fst y = out0 @ evs
        \<and> (\<forall>s. CreateProgramWithSource s \<in> set evs \<longrightarrow>
              (\<exists>n'. replaced_str (string_max_size p) kernel_src (angle_literal p nB) nB n'
                      = Some (Inr s)))
        \<and> ((evs = [] \<and> snd y = Inl LengthError)
            \<or> (\<exists>src rest. replaced_str (string_max_size p) kernel_src (angle_literal p nB) nB n
                    = Some (Inr src) \<and> evs = CreateProgramWithSource src # rest))
        \<and> (\<forall>err. snd y = Inl err \<longrightarrow>
              err = DivisionByZero \<or> err = LengthError \<or> (\<exists>c. err = ClError c)))"

section \<open>Running a kernel on an input: \<open>withInput\<close>\<close>

text \<open>
  A step of the program yields what it logged and either a failure, which ends the run, or
  a value. \<open>and_then\<close> runs a second step after a first that did not fail.
\<close>

type_synonym 'a step = "event list \<times> (failure + 'a)"

definition and_then :: "'a step \<Rightarrow> ('a \<Rightarrow> 'b step) \<Rightarrow> 'b step" where
  "and_then m f =
     (case m of
        (out, Inl err) \<Rightarrow> (out, Inl err)
      | (out, Inr x) \<Rightarrow> (out @ fst (f x), snd (f x)))"

definition emit :: "event list \<Rightarrow> unit step" where
  "emit evs = (evs, Inr ())"

definition return_value :: "'a \<Rightarrow> 'a step" where
  "return_value x = ([], Inr x)"

text \<open>Platform calls, each followed by \<open>CHECK_CL_ERROR\<close>, as a step.\<close>

definition cl_calls :: "(event \<times> cl_int) list \<Rightarrow> unit step" where
  "cl_calls calls =
     (case CHECK_CL_ERROR calls of
        (out, Some err) \<Rightarrow> (out, Inl err)
      | (out, None) \<Rightarrow> (out, Inr ()))"

text \<open>
  Modelled from the spec: the macro \<open>verify\<close> is defined outside the source file; the spec
  makes a violated precondition abort the run.
\<close>

definition verify :: "bool \<Rightarrow> unit step" where
  "verify ok = (if ok then ([], Inr ()) else ([], Inl PreconditionViolated))"

text \<open>
  Modelled from the spec: \<open>is_power_of_two\<close> is declared outside the source file; the
  spec's sizes are the powers of two.
\<close>

fun is_power_of_two :: "nat \<Rightarrow> bool" where
  "is_power_of_two n =
     (if n < 2 then n = 1 else n mod 2 = 0 \<and> is_power_of_two (n div 2))"

definition sizeof_float :: size_t where
  "sizeof_float = 4"

definition sizeof_complex_float :: size_t where
  "sizeof_complex_float = 8"

text \<open>
  The device as \<open>withInput\<close> sees it: the local memory size found by \<open>clGetDeviceInfo\<close>
  (whose status the source does not check), the status of each call, the two timestamps
  of each of the executions, numbered from 0, and the values read back into \<open>output\<close>.
\<close>

record device =
  local_mem_sz :: cl_ulong
  createImage :: "mem_flags \<Rightarrow> cl_int"
  enqueueWriteImage :: cl_int
  setKernelArg :: "nat \<Rightarrow> cl_int"
  enqueueNDRangeKernel :: "nat \<Rightarrow> cl_int"
  waitForEvents :: "nat \<Rightarrow> cl_int"
  getEventProfilingInfo :: "nat \<Rightarrow> profiling_info \<Rightarrow> cl_int"
  time_start :: "nat \<Rightarrow> cl_ulong"
  time_end :: "nat \<Rightarrow> cl_ulong"
  enqueueReadImage :: cl_int
  device_output :: "complex list"
  releaseMemObject :: "mem_flags \<Rightarrow> cl_int"

text \<open>
  The FFT library, which the source only calls: the three transforms, and
  \<open>verifyVectorsAreEqual\<close> with the tolerance it uses when the caller passes none. All
  are declared outside the source file and are parameters here. \<open>verifyVectorsAreEqual\<close>
  either returns (\<^term>\<open>None\<close>) or ends the run. \<open>float\<close> values are carried as reals and
  \<open>std::complex<float>\<close> values as complex numbers.
\<close>

record fft_library =
  makeRefForwardFft :: "real list \<Rightarrow> complex list"
  cpu_fft_norecursion :: "real list \<Rightarrow> complex list"
  bitReversePermutation :: "real list \<Rightarrow> real list"
  verifyVectorsAreEqual :: "complex list \<Rightarrow> complex list \<Rightarrow> real \<Rightarrow> failure option"
  default_tolerance :: real

text \<open>A call of \<open>verifyVectorsAreEqual\<close>, logged with its arguments.\<close>

definition verify_vectors :: "fft_library \<Rightarrow> complex list \<Rightarrow> complex list \<Rightarrow> real \<Rightarrow> unit step" where
  "verify_vectors lib a b tolerance =
     (case verifyVectorsAreEqual lib a b tolerance of
        None \<Rightarrow> ([VerifyVectorsAreEqual a b tolerance], Inr ())
      | Some err \<Rightarrow> ([VerifyVectorsAreEqual a b tolerance], Inl err))"

definition nIterations :: nat where
  "nIterations = 3000"

definition nSkipIterations :: nat where
  "nSkipIterations = 5"

text \<open>
  The benchmark loop, from iteration \<open>i\<close> on. \<open>elapsed\<close> is a \<open>double\<close> in the source and a
  real here: the sum of unsigned 64-bit differences of timestamps. The model is exact as
  long as the sum stays below \<open>2\<^sup>5\<^sup>3\<close>, where every such sum is a \<open>double\<close>.
\<close>

function benchmark :: "device \<Rightarrow> size_t \<Rightarrow> size_t \<Rightarrow> nat \<Rightarrow> real \<Rightarrow> real step" where
  "benchmark dev global_item_size local_item_size i elapsed =
     (if i < nSkipIterations + nIterations then
        and_then
          (cl_calls
            [(EnqueueNDRangeKernel global_item_size local_item_size, enqueueNDRangeKernel dev i),
             (WaitForEvents, waitForEvents dev i),
             (GetEventProfilingInfo CL_PROFILING_COMMAND_START,
                getEventProfilingInfo dev i CL_PROFILING_COMMAND_START),
             (GetEventProfilingInfo CL_PROFILING_COMMAND_END,
                getEventProfilingInfo dev i CL_PROFILING_COMMAND_END)])
          (\<lambda>_. benchmark dev global_item_size local_item_size (Suc i)
                 (if nSkipIterations \<le> i
                  then elapsed + real (unat (time_end dev i - time_start dev i))
                  else elapsed))
      else return_value elapsed)"
  by pat_completeness auto
termination
  by (relation "measure (\<lambda>(dev, g, l, i, elapsed). nSkipIterations + nIterations - i)") auto

declare benchmark.simps [simp del]

text \<open>
  The conversion \<open>(int)x\<close> of a \<open>double\<close>: the value is truncated towards zero, and there
  is no defined result when that is not an \<open>int\<close>. Division of \<open>int\<close>s truncates as well.
\<close>

definition double_to_int :: "real \<Rightarrow> int option" where
  "double_to_int x =
     (if - (2 ^ 31) - 1 < x \<and> x < 2 ^ 31
      then Some (if x < 0 then \<lceil>x\<rceil> else \<lfloor>x\<rfloor>) else None)"

definition int_div :: "int \<Rightarrow> int \<Rightarrow> int" where
  "int_div a b = sgn a * sgn b * (\<bar>a\<bar> div \<bar>b\<bar>)"


text \<open>
  \<open>input.size()/(2*nButterfliesPerThread)\<close>: the product is an \<open>int\<close> and has no defined
  value when it overflows; it is converted to \<open>size_t\<close> for the unsigned division, which
  has no defined value when the divisor is 0.
\<close>

definition global_item_size :: "size_t \<Rightarrow> c_int \<Rightarrow> size_t step" where
  "global_item_size input_size perThread =
     (if 2 * sint perThread < - (2 ^ 31) \<or> 2 ^ 31 \<le> 2 * sint perThread
      then ([], Inl SignedOverflow)
      else if (scast (2 * perThread) :: size_t) = 0 then ([], Inl DivisionByZero)
      else return_value (input_size div scast (2 * perThread)))"

text \<open>The line that reports \<open>(int)(elapsed/(double)nIterations)/1000\<close>.\<close>

definition print_avg_kernel_duration :: "real \<Rightarrow> unit step" where
  "print_avg_kernel_duration elapsed =
     (case double_to_int (elapsed / real nIterations) of
        None \<Rightarrow> ([], Inl ConversionOutOfRange)
      | Some ns \<Rightarrow> emit [PrintAvgKernelDuration (int_div ns 1000)])"

text \<open>
  \<open>withInput\<close>. The context, the command queue and the kernel handle are passed on to the
  platform calls unchanged and are left out. \<open>input.size()\<close> is a \<open>size_t\<close>; a vector in
  memory has fewer than \<open>2\<^sup>6\<^sup>4\<close> elements.
\<close>

definition withInput :: "device \<Rightarrow> fft_library \<Rightarrow> c_int \<Rightarrow> real list \<Rightarrow> bool \<Rightarrow> bool step" where
  "withInput dev lib perThread input verifyResults =
    (let input_size = (of_nat (length input) :: size_t) in
     and_then (verify (is_power_of_two (length input) \<and> 2 \<le> length input)) (\<lambda>_.
     and_then (emit [GetDeviceInfo]) (\<lambda>_.
     if local_mem_sz dev < 2 * input_size * sizeof_complex_float then
       and_then (emit [Print ''not enough local memory on the device!'']) (\<lambda>_.
       return_value False)
     else
     and_then
       (if verifyResults then
          and_then (emit [Print ''- make ref 1'', Print ''- make ref 2'',
                          Print ''- verify consistency'']) (\<lambda>_.
          and_then (verify_vectors lib (makeRefForwardFft lib input)
                      (cpu_fft_norecursion lib (bitReversePermutation lib input))
                      (default_tolerance lib)) (\<lambda>_.
          emit [Print ''- ok'']))
        else emit []) (\<lambda>_.
     and_then (verify (sizeof_float = sizeof_float)) (\<lambda>_.
     and_then (cl_calls
        [(CreateImage CL_MEM_READ_ONLY input_size, createImage dev CL_MEM_READ_ONLY)]) (\<lambda>_.
     and_then (verify (sizeof_complex_float = 2 * sizeof_float)) (\<lambda>_.
     and_then (cl_calls
        [(CreateImage CL_MEM_WRITE_ONLY (2 * input_size), createImage dev CL_MEM_WRITE_ONLY),
         (EnqueueWriteImage (input_size div 4), enqueueWriteImage dev),
         (SetKernelArg 0 InputImage, setKernelArg dev 0),
         (SetKernelArg 1 OutputImage, setKernelArg dev 1),
         (SetKernelArg 2 (LocalMemory (2 * sizeof_float * 2 * input_size)),
            setKernelArg dev 2)]) (\<lambda>_.
     and_then (global_item_size input_size perThread) (\<lambda>global_size.
     and_then (emit [PrintGlobalSize global_size]) (\<lambda>_.
     and_then (benchmark dev global_size global_size 0 0) (\<lambda>elapsed.
     and_then (print_avg_kernel_duration elapsed) (\<lambda>_.
     and_then (cl_calls [(EnqueueReadImage (input_size div 2), enqueueReadImage dev)]) (\<lambda>_.
     and_then
       (if verifyResults then
          and_then (emit [Print ''verifying results... '']) (\<lambda>_.
          verify_vectors lib (device_output dev) (makeRefForwardFft lib input) (1 / 100))
        else emit []) (\<lambda>_.
     and_then (cl_calls
        [(ReleaseMemObject CL_MEM_READ_ONLY, releaseMemObject dev CL_MEM_READ_ONLY),
         (ReleaseMemObject CL_MEM_WRITE_ONLY, releaseMemObject dev CL_MEM_WRITE_ONLY)]) (\<lambda>_.
     return_value True)))))))))))))))"

section \<open>Size-Sweep Driver\<close>

text \<open>
  What \<open>main\<close> needs from the outside: the status of its own platform calls, the text
  of the kernel file, the random input it builds for a size, and the platform and device
  as the constructor and \<open>withInput\<close> see them in the iteration for that size.
\<close>

record world =
  getPlatformIDs :: cl_int
  getDeviceIDs :: cl_int
  createContext :: cl_int
  createCommandQueue :: cl_int
  read_kernel :: string
  rand_float :: "int \<Rightarrow> nat \<Rightarrow> real"
  platform_at :: "int \<Rightarrow> platform"
  device_at :: "int \<Rightarrow> device"
  fft :: fft_library
  flush :: cl_int
  finish :: cl_int
  releaseCommandQueue :: cl_int
  releaseContext :: cl_int

text \<open>The input vector built for size \<open>sz\<close>: \<open>sz\<close> random values.\<close>

definition make_input :: "world \<Rightarrow> int \<Rightarrow> real list" where
  "make_input w sz = map (rand_float w sz) [0..<nat sz]"

text \<open>
  The \<open>for(int sz=8; sz < 10000000; sz *= 2)\<close> loop, from size \<open>sz\<close> on, with what was
  logged so far. \<open>sz\<close> stays far below the range of \<open>int\<close>. The \<open>ScopedKernel\<close> is destroyed,
  and its handles released, at the end of each iteration and when the loop is left by
  \<open>break\<close>. The constructor may not return, and then neither does the loop.
\<close>

partial_function (option) sweep :: "world \<Rightarrow> int \<Rightarrow> event list \<Rightarrow> unit step option" where
  "sweep w sz out =
     (if sz < 10000000 then
        (case ScopedKernel_ctor (platform_at w sz) (read_kernel w)
                (of_nat (length (make_input w sz))) of
           None \<Rightarrow> None
         | Some (probed, Inl err) \<Rightarrow> Some (out @ [PrintInputSize sz] @ probed, Inl err)
         | Some (probed, Inr sc) \<Rightarrow>
            (case withInput (device_at w sz) (fft w) (nButterfliesPerThread sc)
                    (make_input w sz) True of
               (ran_out, Inl err) \<Rightarrow> Some (out @ [PrintInputSize sz] @ probed @ ran_out, Inl err)
             | (ran_out, Inr continue) \<Rightarrow>
                (case release (platform_at w sz) (kernel sc) of
                   (released, Some err) \<Rightarrow>
                     Some (out @ [PrintInputSize sz] @ probed @ ran_out @ released, Inl err)
                 | (released, None) \<Rightarrow>
                     if continue
                     then sweep w (sz * 2) (out @ [PrintInputSize sz] @ probed @ ran_out @ released)
                     else Some (out @ [PrintInputSize sz] @ probed @ ran_out @ released, Inr ()))))
      else Some (out, Inr ()))"

declare sweep.simps [code]

text \<open>\<open>main\<close>: set-up, the sweep from size 8, and the final clean-up.\<close>

definition main :: "world \<Rightarrow> unit step option" where
  "main w =
     (case cl_calls
             [(GetPlatformIDs, getPlatformIDs w), (GetDeviceIDs, getDeviceIDs w),
              (CreateContext, createContext w), (CreateCommandQueue, createCommandQueue w)] of
        (set_up, Inl err) \<Rightarrow> Some (set_up, Inl err)
      | (set_up, Inr _) \<Rightarrow>
         (case sweep w 8 set_up of
            None \<Rightarrow> None
          | Some (out, Inl err) \<Rightarrow> Some (out, Inl err)
          | Some (out, Inr _) \<Rightarrow>
              Some (and_then (out, Inr ())
                (\<lambda>_. cl_calls [(Flush, flush w), (Finish, finish w),
                   (ReleaseCommandQueue, releaseCommandQueue w),
                   (ReleaseContext, releaseContext w)]))))"

section \<open>Example platforms\<close>

text \<open>
  A device on which every call succeeds, with a given local memory size, and on which every
  execution of the kernel takes 7000 ns.
\<close>

definition easy_device :: "cl_ulong \<Rightarrow> device" where
  "easy_device mem = \<lparr>local_mem_sz = mem,
     createImage = (\<lambda>flags. CL_SUCCESS),
     enqueueWriteImage = CL_SUCCESS,
     setKernelArg = (\<lambda>i. CL_SUCCESS),
     enqueueNDRangeKernel = (\<lambda>i. CL_SUCCESS),
     waitForEvents = (\<lambda>i. CL_SUCCESS),
     getEventProfilingInfo = (\<lambda>i info. CL_SUCCESS),
     time_start = (\<lambda>i. 1000),
     time_end = (\<lambda>i. 8000),
     enqueueReadImage = CL_SUCCESS,
     device_output = [],
     releaseMemObject = (\<lambda>flags. CL_SUCCESS)\<rparr>"

text \<open>A library whose transforms only convert, and whose comparison always returns.\<close>

definition easy_fft :: fft_library where
  "easy_fft = \<lparr>makeRefForwardFft = map complex_of_real,
     cpu_fft_norecursion = map complex_of_real,
     bitReversePermutation = (\<lambda>xs. xs),
     verifyVectorsAreEqual = (\<lambda>a b tolerance. None),
     default_tolerance = 1 / 100000\<rparr>"


text \<open>A platform on which every call succeeds and every kernel has the same capacity.\<close>

definition easy_platform :: "size_t \<Rightarrow> platform" where
  "easy_platform wg = \<lparr>string_max_size = 4611686018427387903,
     angle_literal = (\<lambda>n. ''-0x1p+0''),
     createProgramWithSource = (\<lambda>k src. CL_SUCCESS),
     buildProgram = (\<lambda>k src. CL_SUCCESS),
     createKernel = (\<lambda>k src. CL_SUCCESS),
     getKernelWorkGroupInfo = (\<lambda>k src. CL_SUCCESS),
     workgroup_max_sz = (\<lambda>k src. wg),
     releaseKernel = (\<lambda>k. CL_SUCCESS),
     releaseProgram = (\<lambda>k. CL_SUCCESS)\<rparr>"

section \<open>Properties of the text substitution\<close>

subsection \<open>Facts about the search\<close>

lemma find_first_Some:
  "find_first search s = Some i \<Longrightarrow>
     i + length search \<le> length s \<and> take (length search) (drop i s) = search"
proof (induction s arbitrary: i)
  case Nil
  then show ?case by (simp split: if_splits)
next
  case (Cons c cs)
  show ?case
  proof (cases "prefix search (c # cs)")
    case True
    with Cons.prems have "i = 0" by simp
    with True show ?thesis by (auto simp: prefix_def dest: arg_cong[where f=length])
  next
    case False
    with Cons.prems obtain j where "find_first search cs = Some j" "i = Suc j" by auto
    with Cons.IH[of j] show ?thesis by simp
  qed
qed

lemma find_first_None_iff: "find_first search s = None \<longleftrightarrow> \<not> sublist search s"
proof (induction s)
  case Nil
  then show ?case by simp
next
  case (Cons c cs)
  then show ?case by (auto simp: sublist_Cons_right)
qed

lemma find_first_empty: "find_first [] s = Some 0"
  by (cases s) simp_all

lemma string_find_Some:
  assumes "string_find subject search pos = Some found"
  shows "pos \<le> found" and "found + length search \<le> length subject"
    and "take (length search) (drop found subject) = search"
proof -
  from assms obtain i where i: "find_first search (drop pos subject) = Some i"
    and f: "found = pos + i" and le: "pos \<le> length subject"
    by (auto simp: string_find_def split: if_splits)
  from find_first_Some[OF i] le f
  show "pos \<le> found" "found + length search \<le> length subject"
    "take (length search) (drop found subject) = search"
    by (simp_all add: add.commute) arith
qed

lemma string_find_empty:
  "pos \<le> length subject \<Longrightarrow> string_find subject [] pos = Some pos"
  by (simp add: string_find_def find_first_empty)

lemma string_find_0_None_iff: "string_find subject search 0 = None \<longleftrightarrow> \<not> sublist search subject"
  by (simp add: string_find_def find_first_None_iff)

subsection \<open>How the loop ends\<close>

lemma string_replace_Inr:
  "string_replace max_size subject pos len str = Inr replaced \<Longrightarrow>
     replaced = take pos subject @ str @ drop (pos + len) subject \<and> length replaced \<le> max_size"
  by (auto simp: string_replace_def split: if_splits)

lemma string_replace_Inl:
  "string_replace max_size subject pos len str = Inl err \<Longrightarrow>
     err = LengthError \<and> max_size < length (take pos subject @ str @ drop (pos + len) subject)"
  by (auto simp: string_replace_def split: if_splits)

text \<open>
  With a non-empty \<open>search\<close>, the text that is still to be scanned (from \<open>pos\<close> to the end
  of \<open>subject\<close>) gets shorter with each replacement, whatever the replacement is.
\<close>

lemma ReplaceString_loop_progress:
  assumes "string_find subject search pos = Some found" and "search \<noteq> []"
    and "string_replace max_size subject found (length search) replace = Inr replaced"
  shows "length replaced - (found + length replace) < length subject - pos"
proof -
  from string_find_Some[OF assms(1)]
  have "pos \<le> found" "found + length search \<le> length subject" by simp_all
  moreover from assms(2) have "1 \<le> length search" by (cases search) simp_all
  moreover from string_replace_Inr[OF assms(3)]
  have "replaced = take found subject @ replace @ drop (found + length search) subject"
    by simp
  ultimately show ?thesis by (simp del: One_nat_def)
qed

lemma ReplaceString_loop_terminates:
  "search \<noteq> [] \<Longrightarrow> \<exists>r. ReplaceString_loop max_size subject search replace pos = Some r"
proof (induction "length subject - pos" arbitrary: subject pos rule: less_induct)
  case less
  show ?case
  proof (cases "string_find subject search pos")
    case None
    then show ?thesis by (subst ReplaceString_loop.simps) simp
  next
    case (Some found)
    show ?thesis
    proof (cases "string_replace max_size subject found (length search) replace")
      case (Inl err)
      with Some show ?thesis by (subst ReplaceString_loop.simps) simp
    next
      case (Inr replaced)
      from ReplaceString_loop_progress[OF Some less.prems Inr]
      have "\<exists>r. ReplaceString_loop max_size replaced search replace (found + length replace)
                  = Some r"
        by (rule less.hyps) (rule less.prems)
      with Some Inr show ?thesis by (subst ReplaceString_loop.simps) simp
    qed
  qed
qed

text \<open>
  A replacement that is not longer than the search string never makes the text longer, so
  the loop returns.
\<close>

lemma ReplaceString_loop_returns:
  assumes "search \<noteq> []" and "length replace \<le> length search"
  shows "length subject \<le> max_size \<Longrightarrow>
     \<exists>r. ReplaceString_loop max_size subject search replace pos = Some (Inr r)"
proof (induction "length subject - pos" arbitrary: subject pos rule: less_induct)
  case less
  show ?case
  proof (cases "string_find subject search pos")
    case None
    then show ?thesis by (subst ReplaceString_loop.simps) simp
  next
    case (Some found)
    let ?replaced = "take found subject @ replace @ drop (found + length search) subject"
    from string_find_Some[OF Some]
    have "found + length search \<le> length subject" by simp
    with assms(2) have len: "length ?replaced \<le> length subject" by simp
    with less.prems have fit: "length ?replaced \<le> max_size" by simp
    then have rep: "string_replace max_size subject found (length search) replace = Inr ?replaced"
      by (simp add: string_replace_def)
    from ReplaceString_loop_progress[OF Some assms(1) rep]
    have "\<exists>r. ReplaceString_loop max_size ?replaced search replace (found + length replace)
                  = Some (Inr r)"
      by (rule less.hyps) (rule fit)
    with Some rep show ?thesis by (subst ReplaceString_loop.simps) simp
  qed
qed

text \<open>
  With an empty \<open>search\<close> every iteration finds a match at \<open>pos\<close> and inserts the
  replacement there. A non-empty replacement makes the text longer each time, until the
  string library throws.
\<close>

lemma ReplaceString_loop_empty_search_throws:
  assumes "replace \<noteq> []"
  shows "pos \<le> length subject \<Longrightarrow>
     ReplaceString_loop max_size subject [] replace pos = Some (Inl LengthError)"
proof (induction "Suc max_size - length subject" arbitrary: subject pos rule: less_induct)
  case less
  from less.prems have found: "string_find subject [] pos = Some pos"
    by (rule string_find_empty)
  let ?replaced = "take pos subject @ replace @ drop pos subject"
  from assms have grow: "length subject < length ?replaced" by (cases replace) simp_all
  show ?case
  proof (cases "max_size < length ?replaced")
    case True
    then have "string_replace max_size subject pos (length ([] :: string)) replace
        = Inl LengthError"
      by (simp add: string_replace_def)
    with found show ?thesis by (subst ReplaceString_loop.simps) simp
  next
    case False
    then have rep: "string_replace max_size subject pos (length ([] :: string)) replace
        = Inr ?replaced"
      by (simp add: string_replace_def)
    from False grow have "Suc max_size - length ?replaced < Suc max_size - length subject"
      by arith
    moreover from less.prems have "pos + length replace \<le> length ?replaced" by simp
    ultimately have "ReplaceString_loop max_size ?replaced [] replace (pos + length replace)
        = Some (Inl LengthError)"
      by (rule less.hyps)
    with found rep show ?thesis by (subst ReplaceString_loop.simps) simp
  qed
qed

text \<open>With an empty \<open>search\<close> and an empty replacement nothing changes: the loop runs for ever.\<close>

lemma ReplaceString_loop_empty_both_aux:
  "ReplaceString_loop max_size subject search replace pos = Some r \<Longrightarrow>
     \<not> (search = [] \<and> replace = [] \<and> pos \<le> length subject \<and> length subject \<le> max_size)"
proof (erule ReplaceString_loop.raw_induct
    [rotated 1, where P = "\<lambda>max_size subject search replace pos r.
        \<not> (search = [] \<and> replace = [] \<and> pos \<le> length subject \<and> length subject \<le> max_size)"],
    goal_cases)
  case (1 loop max_size subject search replace pos r)
  show ?case
  proof
    assume inv: "search = [] \<and> replace = [] \<and> pos \<le> length subject
      \<and> length subject \<le> max_size"
    then have "string_find subject search pos = Some pos"
      by (simp add: string_find_empty)
    moreover from inv have "string_replace max_size subject pos (length search) replace
        = Inr subject"
      by (simp add: string_replace_def)
    ultimately have "loop max_size subject search replace (pos + length replace) = Some r"
      using "1"(2) by simp
    from "1"(1)[OF this] inv show False by simp
  qed
qed

lemma ReplaceString_loop_empty_both:
  "pos \<le> length subject \<Longrightarrow> length subject \<le> max_size \<Longrightarrow>
     ReplaceString_loop max_size subject [] [] pos = None"
  using ReplaceString_loop_empty_both_aux[of max_size subject "[]" "[]" pos]
  by (cases "ReplaceString_loop max_size subject [] [] pos") auto

text \<open>
  Claim C9, amended: \<open>ReplaceString\<close> on a subject that is a \<open>std::string\<close> ends (by
  returning or by an exception of the string library) exactly when the search string or
  the replacement is non-empty. It returns only when the search string is non-empty, and
  then it does return whenever the replacement is not longer than the search string.
  With an empty search string and a non-empty replacement the subject grows at every
  iteration until the string library throws; with both empty the loop never ends.
\<close>

theorem ReplaceString_ends:
  assumes "length subject \<le> max_size"
  shows "(ReplaceString max_size subject search replace = None \<longleftrightarrow> search = [] \<and> replace = [])
    \<and> ((\<exists>r. ReplaceString max_size subject search replace = Some (Inr r)) \<longrightarrow> search \<noteq> [])
    \<and> (search \<noteq> [] \<and> length replace \<le> length search \<longrightarrow>
         (\<exists>r. ReplaceString max_size subject search replace = Some (Inr r)))
    \<and> (search = [] \<and> replace \<noteq> [] \<longrightarrow>
         ReplaceString max_size subject search replace = Some (Inl LengthError))"
proof (intro conjI impI)
  show "ReplaceString max_size subject search replace = None \<longleftrightarrow> search = [] \<and> replace = []"
  proof
    assume none: "ReplaceString max_size subject search replace = None"
    show "search = [] \<and> replace = []"
    proof (rule ccontr)
      assume "\<not> (search = [] \<and> replace = [])"
      then consider "search \<noteq> []" | "search = []" "replace \<noteq> []" by blast
      then show False
      proof cases
        case 1
        from ReplaceString_loop_terminates[OF this, of max_size subject replace 0] none
        show False by (simp add: ReplaceString_def)
      next
        case 2
        from ReplaceString_loop_empty_search_throws[OF 2(2), of 0 subject max_size] 2(1) none
        show False by (simp add: ReplaceString_def)
      qed
    qed
  next
    assume "search = [] \<and> replace = []"
    with assms show "ReplaceString max_size subject search replace = None"
      by (simp add: ReplaceString_def ReplaceString_loop_empty_both)
  qed
next
  assume "\<exists>r. ReplaceString max_size subject search replace = Some (Inr r)"
  then obtain r where r: "ReplaceString_loop max_size subject search replace 0 = Some (Inr r)"
    by (auto simp: ReplaceString_def)
  show "search \<noteq> []"
  proof
    assume empty: "search = []"
    show False
    proof (cases "replace = []")
      case True
      with empty assms r show False by (simp add: ReplaceString_loop_empty_both)
    next
      case False
      from ReplaceString_loop_empty_search_throws[OF False, of 0 subject max_size] empty r
      show False by simp
    qed
  qed
next
  assume "search \<noteq> [] \<and> length replace \<le> length search"
  then show "\<exists>r. ReplaceString max_size subject search replace = Some (Inr r)"
    unfolding ReplaceString_def using assms by (intro ReplaceString_loop_returns) simp_all
next
  assume "search = [] \<and> replace \<noteq> []"
  then show "ReplaceString max_size subject search replace = Some (Inl LengthError)"
    by (simp add: ReplaceString_def ReplaceString_loop_empty_search_throws)
qed

theorem ReplaceString_ends_witness:
  "length ''aXbXc'' \<le> (4611686018427387903 :: nat)
   \<and> ''X'' \<noteq> [] \<and> length ''y'' \<le> length ''X''
   \<and> (\<exists>r. ReplaceString 4611686018427387903 ''aXbXc'' ''X'' ''y'' = Some (Inr r))"
proof -
  have fits: "length ''aXbXc'' \<le> (4611686018427387903 :: nat)" by simp
  have short: "''X'' \<noteq> [] \<and> length ''y'' \<le> length ''X''" by simp
  from ReplaceString_ends[OF fits, of "''X''" "''y''"]
  have "''X'' \<noteq> [] \<and> length ''y'' \<le> length ''X'' \<longrightarrow>
      (\<exists>r. ReplaceString 4611686018427387903 ''aXbXc'' ''X'' ''y'' = Some (Inr r))"
    by (rule conjunct1[OF conjunct2[OF conjunct2]])
  from mp[OF this short] fits short show ?thesis by (intro conjI) (elim conjE, assumption)+
qed

text \<open>
  The claim as stated fails: with an empty search string and the replacement \<open>x\<close> the loop
  on the subject \<open>ab\<close> does not run for ever, it is ended by the exception.
\<close>

theorem ReplaceString_empty_search_counterexample:
  "ReplaceString 4611686018427387903 ''ab'' [] ''x'' = Some (Inl LengthError)"
  unfolding ReplaceString_def
  by (rule ReplaceString_loop_empty_search_throws) simp_all

section \<open>Properties of the Configuration Prober\<close>

subsection \<open>Conversions between \<open>int\<close> and \<open>size_t\<close>\<close>

lemma unat_scast_nonneg:
  fixes n :: c_int
  assumes "0 \<le> sint n"
  shows "unat (scast n :: size_t) = nat (sint n)"
proof -
  have "sint n < 2 ^ 31" using sint_lt[of n] by simp
  with assms have "nat (sint n) < 2 ^ 64" by simp
  moreover from assms have "(scast n :: size_t) = word_of_nat (nat (sint n))"
    by (simp only: scast_eq word_of_int_nat[OF assms])
  ultimately show ?thesis
    by (simp only: unat_of_nat) simp
qed

lemma sint_ucast_small:
  fixes x :: size_t
  assumes "unat x < 2 ^ 31"
  shows "sint (ucast x :: c_int) = int (unat x)"
proof -
  have "uint x < 2 ^ 31"
    unfolding uint_nat of_nat_less_numeral_power_cancel_iff by (rule assms)
  moreover have "- (2 ^ 31) \<le> uint x" by (rule order_trans[of _ 0]) simp_all
  ultimately have "signed_take_bit 31 (uint x) = uint x"
    by (rule signed_take_bit_int_eq_self[rotated])
  moreover have "sint (ucast x :: c_int) = signed_take_bit 31 (uint x)"
    by (simp only: ucast_eq sint_sbintrunc') simp
  ultimately show ?thesis by simp
qed

lemma sint_nButterflies:
  fixes input_size :: size_t
  assumes "unat input_size < 2 ^ 32"
  shows "sint (ucast (input_size div 2) :: c_int) = int (unat input_size div 2)"
proof -
  have "unat (input_size div 2) = unat input_size div 2" by (simp add: unat_div)
  moreover from assms have "unat input_size div 2 < 2 ^ 31" by simp
  ultimately show ?thesis by (simp add: sint_ucast_small)
qed

lemma unat_mult_le:
  fixes a b :: size_t
  shows "unat (a * b) \<le> unat a * unat b"
  by (simp add: unat_word_ariths)

lemma sint_next_estimate:
  fixes nB :: c_int
  assumes "0 \<le> sint nB"
  shows "sint (next_estimate nB wg) = int (nat (sint nB) div unat wg)"
proof -
  have "sint nB < 2 ^ 31" using sint_lt[of nB] by simp
  then have "nat (sint nB) div unat wg < 2 ^ 31"
    using assms by (metis div_le_dividend le_less_trans nat_less_numeral_power_cancel_iff)
  then show ?thesis
    unfolding next_estimate_def
    by (simp add: sint_ucast_small unat_div unat_scast_nonneg[OF assms])
qed

lemma not_over_capacity:
  fixes nB n :: c_int
  assumes "\<not> over_capacity nB n wg" and "0 \<le> sint nB" and "0 \<le> sint n"
  shows "nat (sint nB) \<le> nat (sint n) * unat wg"
proof -
  from assms(1) have "(scast nB :: size_t) \<le> scast n * wg"
    by (simp add: over_capacity_def not_less)
  then have "unat (scast nB :: size_t) \<le> unat (scast n * wg)"
    by (simp add: word_le_nat_alt)
  also have "\<dots> \<le> unat (scast n :: size_t) * unat wg" by (rule unat_mult_le)
  finally show ?thesis
    by (simp add: unat_scast_nonneg[OF assms(2)] unat_scast_nonneg[OF assms(3)])
qed


subsection \<open>Evaluating a run\<close>

text \<open>The equations that unfold a run of the constructor on a given platform and template.\<close>

lemmas eval_simps = ScopedKernel_ctor_def ScopedKernel_loop.simps replaced_str_def and_replace_def
  ReplaceString_def ReplaceString_loop.simps string_find_def string_replace_def compile_def
  release_def easy_platform_def over_capacity_def next_estimate_def to_string_def digit_char_def
  CL_SUCCESS_def Let_def

subsection \<open>Accepted configurations\<close>

lemma ScopedKernel_loop_accept_aux:
  "ScopedKernel_loop p kernel_src nB k n out = Some y \<Longrightarrow>
     \<forall>out' sc. y = (out', Inr sc) \<longrightarrow>
       (\<exists>src. replaced_str (string_max_size p) kernel_src (angle_literal p nB) nB
                 (nButterfliesPerThread sc) = Some (Inr src)
          \<and> \<not> over_capacity nB (nButterfliesPerThread sc) (workgroup_max_sz p (kernel sc) src)
          \<and> (\<exists>evs. out' = evs @ [PrintWorkgroupMaxSize (workgroup_max_sz p (kernel sc) src)
                                 (nButterfliesPerThread sc)]))"
proof (erule ScopedKernel_loop.raw_induct
    [rotated 1, where P = "\<lambda>p kernel_src nB k n out y.
        \<forall>out' sc. y = (out', Inr sc) \<longrightarrow>
       (\<exists>src. replaced_str (string_max_size p) kernel_src (angle_literal p nB) nB
                 (nButterfliesPerThread sc) = Some (Inr src)
          \<and> \<not> over_capacity nB (nButterfliesPerThread sc) (workgroup_max_sz p (kernel sc) src)
          \<and> (\<exists>evs. out' = evs @ [PrintWorkgroupMaxSize (workgroup_max_sz p (kernel sc) src)
                                 (nButterfliesPerThread sc)]))"], goal_cases)
  case (1 loop p kernel_src nB k n out y)
  from "1"(2) show ?case
    by (auto simp: Let_def split: option.splits sum.splits prod.splits if_splits dest!: "1"(1))
qed

lemma ScopedKernel_loop_accept:
  assumes "ScopedKernel_loop p kernel_src nB k n out = Some (out', Inr sc)"
  shows "\<exists>src. replaced_str (string_max_size p) kernel_src (angle_literal p nB) nB
                 (nButterfliesPerThread sc) = Some (Inr src)
          \<and> \<not> over_capacity nB (nButterfliesPerThread sc) (workgroup_max_sz p (kernel sc) src)
          \<and> (\<exists>evs. out' = evs @ [PrintWorkgroupMaxSize (workgroup_max_sz p (kernel sc) src)
                                 (nButterfliesPerThread sc)])"
  using ScopedKernel_loop_accept_aux[OF assms] by simp

lemma ScopedKernel_loop_sign_aux:
  "ScopedKernel_loop p kernel_src nB k n out = Some y \<Longrightarrow>
     0 \<le> sint nB \<longrightarrow> 0 \<le> sint n \<longrightarrow>
       (\<forall>out' sc. y = (out', Inr sc) \<longrightarrow> 0 \<le> sint (nButterfliesPerThread sc))"
proof (erule ScopedKernel_loop.raw_induct
    [rotated 1, where P = "\<lambda>p kernel_src nB k n out y.
        0 \<le> sint nB \<longrightarrow> 0 \<le> sint n \<longrightarrow>
          (\<forall>out' sc. y = (out', Inr sc) \<longrightarrow> 0 \<le> sint (nButterfliesPerThread sc))"], goal_cases)
  case (1 loop p kernel_src nB k n out y)
  from "1"(2) show ?case
    by (auto simp: Let_def sint_next_estimate split: option.splits sum.splits prod.splits if_splits
        dest!: "1"(1))
qed

lemma ScopedKernel_loop_sign:
  assumes "ScopedKernel_loop p kernel_src nB k n out = Some (out', Inr sc)"
    and "0 \<le> sint nB" and "0 \<le> sint n"
  shows "0 \<le> sint (nButterfliesPerThread sc)"
  using ScopedKernel_loop_sign_aux[OF assms(1)] assms(2,3) by simp

text \<open>
  Claim C1: for every input length \<open>N \<ge> 2\<close> for which the search returns an accepted
  configuration, the accepted per-thread count \<open>p\<close> is positive and \<open>N/2 \<le> p \<times> wg\<close>, where
  \<open>wg\<close> is the maximum work-group size reported for the kernel that was compiled last,
  from the source instantiated with \<open>p\<close>. The lengths are those whose half fits the \<open>int\<close>
  \<open>nButterflies\<close>, \<open>N < 2\<^sup>3\<^sup>2\<close>; the sweep passes lengths below 10000000. The product
  \<open>p \<times> wg\<close> is the product of the numbers, also where the \<open>size_t\<close> product of the source
  wraps around.
\<close>

theorem ScopedKernel_accepts_within_capacity:
  assumes run: "ScopedKernel_ctor p kernel_src input_size = Some (out, Inr sc)"
    and lo: "2 \<le> unat input_size" and hi: "unat input_size < 2 ^ 32"
  shows "\<exists>src.
      replaced_str (string_max_size p) kernel_src (angle_literal p (ucast (input_size div 2)))
        (ucast (input_size div 2)) (nButterfliesPerThread sc) = Some (Inr src)
    \<and> 0 < sint (nButterfliesPerThread sc)
    \<and> unat input_size div 2
        \<le> nat (sint (nButterfliesPerThread sc)) * unat (workgroup_max_sz p (kernel sc) src)"
proof -
  define nB :: c_int where "nB = ucast (input_size div 2)"
  have nB: "sint nB = int (unat input_size div 2)"
    unfolding nB_def by (rule sint_nButterflies[OF hi])
  with lo have pos: "0 < sint nB" by simp
  from run have loop: "ScopedKernel_loop p kernel_src nB 0 1 [] = Some (out, Inr sc)"
    by (simp add: ScopedKernel_ctor_def nB_def)
  from ScopedKernel_loop_sign[OF loop] pos
  have sgn: "0 \<le> sint (nButterfliesPerThread sc)" by simp
  from ScopedKernel_loop_accept[OF loop] obtain src where
    src: "replaced_str (string_max_size p) kernel_src (angle_literal p nB) nB
                 (nButterfliesPerThread sc) = Some (Inr src)"
    and cap: "\<not> over_capacity nB (nButterfliesPerThread sc) (workgroup_max_sz p (kernel sc) src)"
    by blast
  from not_over_capacity[OF cap _ sgn] pos
  have le: "nat (sint nB) \<le> nat (sint (nButterfliesPerThread sc))
              * unat (workgroup_max_sz p (kernel sc) src)"
    by simp
  with pos have "nat (sint (nButterfliesPerThread sc)) \<noteq> 0" by auto
  with sgn have "0 < sint (nButterfliesPerThread sc)" by simp
  with src le nB show ?thesis unfolding nB_def by auto
qed

theorem ScopedKernel_accepts_within_capacity_witness:
  "ScopedKernel_ctor (easy_platform 2) ''f(replace_N_LOCAL_BUTTERFLIES)'' 8 =
    Some ([CreateProgramWithSource ''f(1)'', BuildProgram, CreateKernel,
           GetKernelWorkGroupInfo, PrintWorkgroupMaxSize 2 1, ReleaseKernel,
           ReleaseProgram, CreateProgramWithSource ''f(2)'', BuildProgram,
           CreateKernel, GetKernelWorkGroupInfo, PrintWorkgroupMaxSize 2 2],
          Inr \<lparr>program = 1, kernel = 1, nButterfliesPerThread = 2\<rparr>)
   \<and> 2 \<le> unat (8 :: size_t) \<and> unat (8 :: size_t) < 2 ^ 32
   \<and> (\<exists>src.
      replaced_str (string_max_size (easy_platform 2)) ''f(replace_N_LOCAL_BUTTERFLIES)''
        (angle_literal (easy_platform 2) (ucast ((8 :: size_t) div 2)))
        (ucast ((8 :: size_t) div 2)) 2 = Some (Inr src)
    \<and> 0 < sint (2 :: c_int)
    \<and> unat (8 :: size_t) div 2
        \<le> nat (sint (2 :: c_int)) * unat (workgroup_max_sz (easy_platform 2) 1 src))"
proof -
  have run: "ScopedKernel_ctor (easy_platform 2) ''f(replace_N_LOCAL_BUTTERFLIES)'' 8 =
    Some ([CreateProgramWithSource ''f(1)'', BuildProgram, CreateKernel,
           GetKernelWorkGroupInfo, PrintWorkgroupMaxSize 2 1, ReleaseKernel,
           ReleaseProgram, CreateProgramWithSource ''f(2)'', BuildProgram,
           CreateKernel, GetKernelWorkGroupInfo, PrintWorkgroupMaxSize 2 2],
          Inr \<lparr>program = 1, kernel = 1, nButterfliesPerThread = 2\<rparr>)"
    by (simp add: eval_simps)
  have lo: "2 \<le> unat (8 :: size_t)" and hi: "unat (8 :: size_t) < 2 ^ 32" by simp_all
  have concl: "\<exists>src.
      replaced_str (string_max_size (easy_platform 2)) ''f(replace_N_LOCAL_BUTTERFLIES)''
        (angle_literal (easy_platform 2) (ucast ((8 :: size_t) div 2)))
        (ucast ((8 :: size_t) div 2)) 2 = Some (Inr src)
    \<and> 0 < sint (2 :: c_int)
    \<and> unat (8 :: size_t) div 2
        \<le> nat (sint (2 :: c_int)) * unat (workgroup_max_sz (easy_platform 2) 1 src)"
    using ScopedKernel_accepts_within_capacity[OF run lo hi]
    by (simp only: ScopedKernel.simps)
  show ?thesis by (intro conjI run lo hi concl)
qed


subsection \<open>Retries\<close>



lemma over_capacity_nat:
  fixes nB n :: c_int
  assumes "over_capacity nB n wg" and "0 \<le> sint nB" and "0 \<le> sint n"
    and "nat (sint n) * unat wg < 2 ^ 64"
  shows "nat (sint n) * unat wg < nat (sint nB)"
proof -
  from assms(4) have "unat (scast n :: size_t) * unat wg < 2 ^ LENGTH(64)"
    by (simp add: unat_scast_nonneg[OF assms(3)])
  then have "unat ((scast n :: size_t) * wg) = unat (scast n :: size_t) * unat wg"
    by (simp only: unat_mult_lem)
  moreover from assms(1) have "unat ((scast n :: size_t) * wg) < unat (scast nB :: size_t)"
    by (simp add: over_capacity_def word_less_nat_alt)
  ultimately show ?thesis
    by (simp add: unat_scast_nonneg[OF assms(2)] unat_scast_nonneg[OF assms(3)])
qed

lemma next_estimate_not_smaller:
  fixes nB n :: c_int
  assumes "over_capacity nB n wg" and "0 \<le> sint nB" and "0 \<le> sint n"
    and "nat (sint n) * unat wg < 2 ^ 64" and "wg \<noteq> 0"
  shows "sint n \<le> sint (next_estimate nB wg)"
proof -
  from assms(5) have wg: "0 < unat wg" by (simp add: unat_gt_0)
  from over_capacity_nat[OF assms(1-4)]
  have "nat (sint n) * unat wg \<le> nat (sint nB)" by simp
  with wg have "nat (sint n) \<le> nat (sint nB) div unat wg"
    by (simp add: less_eq_div_iff_mult_less_eq)
  with assms(3) show ?thesis by (simp add: sint_next_estimate[OF assms(2)])
qed

lemma next_estimate_greater:
  fixes nB n :: c_int
  assumes "over_capacity nB n wg" and "0 \<le> sint nB" and "0 \<le> sint n"
    and "nat (sint n) * unat wg < 2 ^ 64" and "unat wg dvd nat (sint nB)"
  shows "sint n < sint (next_estimate nB wg)"
proof -
  from assms(5) obtain q where q: "nat (sint nB) = unat wg * q" by (rule dvdE)
  from over_capacity_nat[OF assms(1-4)] q
  have lt: "nat (sint n) * unat wg < unat wg * q" by simp
  then have wg: "0 < unat wg" by (cases "unat wg") simp_all
  from lt have "nat (sint n) < q" by (simp add: mult.commute)
  moreover from q wg have "nat (sint nB) div unat wg = q" by simp
  ultimately show ?thesis using assms(3) by (simp add: sint_next_estimate[OF assms(2)])
qed

lemma ScopedKernel_loop_stuck_aux:
  assumes src: "replaced_str (string_max_size p) kernel_src (angle_literal p nB) nB n
      = Some (Inr src)"
    and ok: "\<And>k. snd (compile p k src) = None" "\<And>k. snd (release p k) = None"
    and over: "\<And>k. over_capacity nB n (workgroup_max_sz p k src)"
    and same: "\<And>k. next_estimate nB (workgroup_max_sz p k src) = n"
    and nz: "\<And>k. workgroup_max_sz p k src \<noteq> 0"
  shows "ScopedKernel_loop p' kernel_src' nB' k n' out = Some y \<Longrightarrow>
           \<not> (p' = p \<and> kernel_src' = kernel_src \<and> nB' = nB \<and> n' = n)"
proof (erule ScopedKernel_loop.raw_induct
    [rotated 1, where P = "\<lambda>p' kernel_src' nB' k n' out y.
        \<not> (p' = p \<and> kernel_src' = kernel_src \<and> nB' = nB \<and> n' = n)"], goal_cases)
  case (1 loop p' kernel_src' nB' k n' out y)
  show ?case
  proof
    assume eq: "p' = p \<and> kernel_src' = kernel_src \<and> nB' = nB \<and> n' = n"
    obtain calls where c: "compile p k src = (calls, None)"
      using ok(1)[of k] by (cases "compile p k src") simp
    obtain rel where r: "release p k = (rel, None)"
      using ok(2)[of k] by (cases "release p k") simp
    from "1"(2) eq src c r over[of k] same[of k]
    have "workgroup_max_sz p k src \<noteq> 0 \<Longrightarrow>
      \<exists>out'. loop p kernel_src nB (Suc k) n out' = Some y"
      by (auto simp: Let_def split: if_splits)
    with nz[of k] obtain out' where "loop p kernel_src nB (Suc k) n out' = Some y" by blast
    from "1"(1)[OF this] show False by simp
  qed
qed


lemma ScopedKernel_loop_stuck:
  assumes "replaced_str (string_max_size p) kernel_src (angle_literal p nB) nB n
      = Some (Inr src)"
    and "\<And>k. snd (compile p k src) = None" "\<And>k. snd (release p k) = None"
    and "\<And>k. over_capacity nB n (workgroup_max_sz p k src)"
    and "\<And>k. next_estimate nB (workgroup_max_sz p k src) = n"
    and "\<And>k. workgroup_max_sz p k src \<noteq> 0"
  shows "ScopedKernel_loop p kernel_src nB k n out = None"
proof (cases "ScopedKernel_loop p kernel_src nB k n out")
  case None
  then show ?thesis .
next
  case (Some y)
  from ScopedKernel_loop_stuck_aux[OF assms Some] show ?thesis by simp
qed

text \<open>
  Claim C6, at an input on which the code departs from it: a device whose kernels have a maximum work-group
  size of 384 and an input of length 1024: the first trial is over capacity
  (512 butterflies, 1 per thread, 384 lanes), the next estimate is 512 / 384 = 1, the count
  just tried, and the search never ends.
\<close>

theorem retry_does_not_increase:
  "over_capacity (ucast ((1024 :: size_t) div 2)) 1 384
   \<and> next_estimate (ucast ((1024 :: size_t) div 2)) 384 = 1
   \<and> ScopedKernel_ctor (easy_platform 384)
        ''#define N replace_N_LOCAL_BUTTERFLIES'' 1024 = None"
proof (intro conjI)
  show over: "over_capacity (ucast ((1024 :: size_t) div 2)) 1 384"
    by (simp add: over_capacity_def)
  show same: "next_estimate (ucast ((1024 :: size_t) div 2)) 384 = 1"
    by (simp add: next_estimate_def)
  have src: "replaced_str (string_max_size (easy_platform 384))
      ''#define N replace_N_LOCAL_BUTTERFLIES''
      (angle_literal (easy_platform 384) (ucast ((1024 :: size_t) div 2)))
      (ucast ((1024 :: size_t) div 2)) 1 = Some (Inr ''#define N 1'')"
    by (simp add: eval_simps)
  show "ScopedKernel_ctor (easy_platform 384)
        ''#define N replace_N_LOCAL_BUTTERFLIES'' 1024 = None"
    unfolding ScopedKernel_ctor_def
  proof (rule ScopedKernel_loop_stuck[OF src])
    show "snd (compile (easy_platform 384) k ''#define N 1'') = None" for k
      by (simp add: compile_def easy_platform_def CL_SUCCESS_def)
    show "snd (release (easy_platform 384) k) = None" for k
      by (simp add: release_def easy_platform_def CL_SUCCESS_def)
    show "over_capacity (ucast ((1024 :: size_t) div 2)) 1
        (workgroup_max_sz (easy_platform 384) k ''#define N 1'')" for k
      using over by (simp add: easy_platform_def)
    show "next_estimate (ucast ((1024 :: size_t) div 2))
        (workgroup_max_sz (easy_platform 384) k ''#define N 1'') = 1" for k
      using same by (simp add: easy_platform_def)
    show "workgroup_max_sz (easy_platform 384) k ''#define N 1'' \<noteq> 0" for k
      by (simp add: easy_platform_def)
  qed
qed

section \<open>Properties of the Template Instantiator\<close>

lemma ReplaceString_absent:
  assumes "\<not> sublist search subject"
  shows "ReplaceString max_size subject search replace = Some (Inr subject)"
proof -
  from assms have "string_find subject search 0 = None" by (simp add: string_find_0_None_iff)
  then show ?thesis
    unfolding ReplaceString_def by (subst ReplaceString_loop.simps) simp
qed

lemma token_not_empty: "token h \<noteq> []"
  by (cases h) simp_all

lemma ReplaceString_token_ends: "\<exists>r. ReplaceString max_size subject (token h) replace = Some r"
  unfolding ReplaceString_def by (rule ReplaceString_loop_terminates) (rule token_not_empty)

lemma ReplaceString_loop_Inl:
  "ReplaceString_loop max_size subject search replace pos = Some r \<Longrightarrow>
     \<forall>err. r = Inl err \<longrightarrow> err = LengthError"
proof (erule ReplaceString_loop.raw_induct
    [rotated 1, where P = "\<lambda>max_size subject search replace pos r.
        \<forall>err. r = Inl err \<longrightarrow> err = LengthError"], goal_cases)
  case (1 loop max_size subject search replace pos r)
  from "1"(2) show ?case
    by (auto split: option.splits sum.splits dest!: "1"(1) string_replace_Inl)
qed

lemma ReplaceString_Inl:
  "ReplaceString max_size subject search replace = Some (Inl err) \<Longrightarrow> err = LengthError"
  unfolding ReplaceString_def by (drule ReplaceString_loop_Inl) simp

lemma and_replace_ends:
  assumes "\<exists>r. first = Some r" and "\<And>s. \<exists>r. f s = Some r"
  shows "\<exists>r. and_replace first f = Some r"
  using assms by (auto simp: and_replace_def split: option.splits sum.splits)

lemma replaced_str_ends: "\<exists>r. replaced_str max_size kernel_src buf nB n = Some r"
  unfolding replaced_str_def
  by (intro and_replace_ends ReplaceString_token_ends)

lemma and_replace_Inl:
  assumes "and_replace first f = Some (Inl err)"
    and "first = Some (Inl err) \<Longrightarrow> P" and "\<And>s. f s = Some (Inl err) \<Longrightarrow> P"
  shows P
  using assms by (auto simp: and_replace_def split: option.splits sum.splits)

lemma replaced_str_Inl:
  assumes "replaced_str max_size kernel_src buf nB n = Some (Inl err)"
  shows "err = LengthError"
  using assms unfolding replaced_str_def
  by (elim and_replace_Inl) (erule ReplaceString_Inl)+

lemma replaced_str_no_placeholder:
  assumes "\<forall>h. \<not> sublist (token h) kernel_src"
  shows "replaced_str max_size kernel_src buf nB n = Some (Inr kernel_src)"
proof -
  have absent: "ReplaceString max_size kernel_src (token h) v = Some (Inr kernel_src)" for h v
    using assms by (intro ReplaceString_absent) (rule spec)
  show ?thesis
    unfolding replaced_str_def and_replace_def
    by (simp only: absent option.case sum.case)
qed

subsection \<open>What the constructor hands to the compiler\<close>

lemma fst_CHECK_CL_ERROR_subset: "set (fst (CHECK_CL_ERROR calls)) \<subseteq> fst ` set calls"
  by (induction calls) (auto split: if_splits)

lemma snd_CHECK_CL_ERROR_Some:
  "snd (CHECK_CL_ERROR calls) = Some err \<Longrightarrow> \<exists>c. err = ClError c"
  by (induction calls) (auto split: if_splits)

lemma compile_events:
  "e \<in> set (fst (compile p k src)) \<Longrightarrow>
     e \<in> {CreateProgramWithSource src, BuildProgram, CreateKernel, GetKernelWorkGroupInfo}"
  using fst_CHECK_CL_ERROR_subset[of "[(CreateProgramWithSource src, createProgramWithSource p k src),
        (BuildProgram, buildProgram p k src),
        (CreateKernel, createKernel p k src),
        (GetKernelWorkGroupInfo, getKernelWorkGroupInfo p k src)]"]
  unfolding compile_def by auto

lemma compile_first: "\<exists>rest. fst (compile p k src) = CreateProgramWithSource src # rest"
  by (simp add: compile_def)

lemma compile_failure: "snd (compile p k src) = Some err \<Longrightarrow> \<exists>c. err = ClError c"
  unfolding compile_def by (rule snd_CHECK_CL_ERROR_Some)

lemma release_events:
  "e \<in> set (fst (release p k)) \<Longrightarrow> e \<in> {ReleaseKernel, ReleaseProgram}"
  using fst_CHECK_CL_ERROR_subset[of "[(ReleaseKernel, releaseKernel p k),
    (ReleaseProgram, releaseProgram p k)]"]
  unfolding release_def by auto

lemma release_failure: "snd (release p k) = Some err \<Longrightarrow> \<exists>c. err = ClError c"
  unfolding release_def by (rule snd_CHECK_CL_ERROR_Some)

lemma loop_log_okI:
  assumes "fst y = out0 @ evs"
    and "\<And>s. CreateProgramWithSource s \<in> set evs \<Longrightarrow>
          \<exists>n'. replaced_str (string_max_size p) kernel_src (angle_literal p nB) nB n'
                  = Some (Inr s)"
    and "(evs = [] \<and> snd y = Inl LengthError)
            \<or> (\<exists>src rest. replaced_str (string_max_size p) kernel_src (angle_literal p nB) nB n
                    = Some (Inr src) \<and> evs = CreateProgramWithSource src # rest)"
    and "\<And>err. snd y = Inl err \<Longrightarrow>
          err = DivisionByZero \<or> err = LengthError \<or> (\<exists>c. err = ClError c)"
  shows "loop_log_ok p kernel_src nB n out0 y"
  unfolding loop_log_ok_def using assms by blast

lemma ScopedKernel_loop_log_aux:
  "ScopedKernel_loop p kernel_src nB k n out0 = Some y \<Longrightarrow>
     loop_log_ok p kernel_src nB n out0 y"
proof (erule ScopedKernel_loop.raw_induct
    [rotated 1, where P = "\<lambda>p kernel_src nB k n out0 y. loop_log_ok p kernel_src nB n out0 y"],
    goal_cases)
  case (1 loop p kernel_src nB k n out0 y)
  let ?r = "replaced_str (string_max_size p) kernel_src (angle_literal p nB) nB n"
  from replaced_str_ends obtain r where r: "?r = Some r" by blast
  show ?case
  proof (cases r)
    case (Inl err)
    with r have err: "err = LengthError" by (auto dest: replaced_str_Inl)
    from "1"(2) r Inl err have y: "y = (out0, Inl LengthError)" by simp
    show ?thesis by (rule loop_log_okI[where evs = "[]"]) (simp_all add: y)
  next
    case (Inr src)
    with r have src: "?r = Some (Inr src)" by simp
    obtain calls res where c: "compile p k src = (calls, res)" by (cases "compile p k src")
    from compile_first[of p k src] c obtain rest where
      first: "calls = CreateProgramWithSource src # rest" by auto
    have progs: "s = src" if "CreateProgramWithSource s \<in> set calls" for s
      using compile_events[of "CreateProgramWithSource s" p k src] c that by auto
    have progs': "\<exists>n'. replaced_str (string_max_size p) kernel_src (angle_literal p nB) nB n'
                  = Some (Inr s)" if "CreateProgramWithSource s \<in> set calls" for s
      using progs[OF that] src by blast
    have started: "\<exists>src rest'. ?r = Some (Inr src) \<and> calls @ more = CreateProgramWithSource src # rest'"
      for more using src first by simp
    show ?thesis
    proof (cases res)
      case (Some err)
      with compile_failure[of p k src err] c obtain code where code: "err = ClError code" by auto
      from "1"(2) src c Some have y: "y = (out0 @ calls, Inl err)" by simp
      show ?thesis
      proof (rule loop_log_okI[where evs = calls])
        show "fst y = out0 @ calls" by (simp add: y)
        show "\<exists>n'. replaced_str (string_max_size p) kernel_src (angle_literal p nB) nB n'
                  = Some (Inr s)" if "CreateProgramWithSource s \<in> set calls" for s
          using that by (rule progs')
        show "(calls = [] \<and> snd y = Inl LengthError)
            \<or> (\<exists>src rest. ?r = Some (Inr src) \<and> calls = CreateProgramWithSource src # rest)"
          using started[of "[]"] by simp
        show "err' = DivisionByZero \<or> err' = LengthError \<or> (\<exists>c. err' = ClError c)"
          if "snd y = Inl err'" for err' using that y code by auto
      qed
    next
      case None
      let ?wg = "workgroup_max_sz p k src"
      let ?print = "PrintWorkgroupMaxSize ?wg n"
      show ?thesis
      proof (cases "over_capacity nB n ?wg")
        case False
        with "1"(2) src c None
        have y: "y = (out0 @ calls @ [?print],
            Inr \<lparr>program = k, kernel = k, nButterfliesPerThread = n\<rparr>)"
          by (simp add: Let_def)
        show ?thesis
        proof (rule loop_log_okI[where evs = "calls @ [?print]"])
          show "fst y = out0 @ calls @ [?print]" by (simp add: y)
          show "\<exists>n'. replaced_str (string_max_size p) kernel_src (angle_literal p nB) nB n'
                  = Some (Inr s)" if "CreateProgramWithSource s \<in> set (calls @ [?print])" for s
            using that progs' by simp
          show "(calls @ [?print] = [] \<and> snd y = Inl LengthError)
            \<or> (\<exists>src rest. ?r = Some (Inr src)
                  \<and> calls @ [?print] = CreateProgramWithSource src # rest)"
            using started[of "[?print]"] by blast
          show "err' = DivisionByZero \<or> err' = LengthError \<or> (\<exists>c. err' = ClError c)"
            if "snd y = Inl err'" for err' using that y by simp
        qed
      next
        case True
        obtain rel rres where rl: "release p k = (rel, rres)" by (cases "release p k")
        have norel: "CreateProgramWithSource s \<notin> set rel" for s
          using release_events[of "CreateProgramWithSource s" p k] rl by auto
        have progs2: "\<exists>n'. replaced_str (string_max_size p) kernel_src (angle_literal p nB) nB n'
                  = Some (Inr s)"
          if "CreateProgramWithSource s \<in> set (calls @ [?print] @ rel)" for s
          using that progs' norel by simp
        have stopped: "loop_log_ok p kernel_src nB n out0 (out0 @ calls @ [?print] @ rel, Inl err)"
          if "err = DivisionByZero \<or> (\<exists>c. err = ClError c)" for err
        proof (rule loop_log_okI[where evs = "calls @ [?print] @ rel"])
          show "fst (out0 @ calls @ [?print] @ rel, Inl err) = out0 @ calls @ [?print] @ rel"
            by simp
          show "\<exists>n'. replaced_str (string_max_size p) kernel_src (angle_literal p nB) nB n'
                  = Some (Inr s)"
            if "CreateProgramWithSource s \<in> set (calls @ [?print] @ rel)" for s
            using that by (rule progs2)
          show "(calls @ [?print] @ rel = []
                \<and> snd (out0 @ calls @ [?print] @ rel, Inl err) = Inl LengthError)
            \<or> (\<exists>src rest. ?r = Some (Inr src)
                  \<and> calls @ [?print] @ rel = CreateProgramWithSource src # rest)"
            using started[of "[?print] @ rel"] by blast
          show "err' = DivisionByZero \<or> err' = LengthError \<or> (\<exists>c. err' = ClError c)"
            if "snd (out0 @ calls @ [?print] @ rel, Inl err) = Inl err'" for err'
            using that \<open>err = DivisionByZero \<or> (\<exists>c. err = ClError c)\<close> by auto
        qed
        show ?thesis
        proof (cases rres)
          case (Some err)
          with release_failure[of p k err] rl have code: "\<exists>c. err = ClError c" by auto
          from "1"(2) src c None True rl Some
          have y: "y = (out0 @ calls @ [?print] @ rel, Inl err)" by (simp add: Let_def)
          show ?thesis unfolding y using code by (intro stopped) simp
        next
          case None': None
          show ?thesis
          proof (cases "?wg = 0")
            case True': True
            from "1"(2) src c None True rl None' True'
            have y: "y = (out0 @ calls @ [?print] @ rel, Inl DivisionByZero)"
              by (simp add: Let_def)
            show ?thesis unfolding y by (intro stopped) simp
          next
            case False
            with "1"(2) src c None True rl None'
            have "loop p kernel_src nB (Suc k) (next_estimate nB ?wg)
                (out0 @ calls @ [?print] @ rel) = Some y"
              by (simp add: Let_def)
            from "1"(1)[OF this] obtain evs where
              y: "fst y = (out0 @ calls @ [?print] @ rel) @ evs"
              and all: "\<forall>s. CreateProgramWithSource s \<in> set evs \<longrightarrow>
                (\<exists>n'. replaced_str (string_max_size p) kernel_src (angle_literal p nB) nB n'
                      = Some (Inr s))"
              and fail: "\<forall>err. snd y = Inl err \<longrightarrow>
                err = DivisionByZero \<or> err = LengthError \<or> (\<exists>c. err = ClError c)"
              unfolding loop_log_ok_def by blast
            show ?thesis
            proof (rule loop_log_okI[where evs = "calls @ [?print] @ rel @ evs"])
              show "fst y = out0 @ calls @ [?print] @ rel @ evs" using y by simp
              show "\<exists>n'. replaced_str (string_max_size p) kernel_src (angle_literal p nB) nB n'
                  = Some (Inr s)"
                if "CreateProgramWithSource s \<in> set (calls @ [?print] @ rel @ evs)" for s
              proof -
                from that consider "CreateProgramWithSource s \<in> set (calls @ [?print] @ rel)"
                  | "CreateProgramWithSource s \<in> set evs" by auto
                then show ?thesis
                proof cases
                  case 1
                  then show ?thesis by (rule progs2)
                next
                  case 2
                  with all show ?thesis by blast
                qed
              qed
              show "(calls @ [?print] @ rel @ evs = [] \<and> snd y = Inl LengthError)
                \<or> (\<exists>src rest. ?r = Some (Inr src)
                  \<and> calls @ [?print] @ rel @ evs = CreateProgramWithSource src # rest)"
                using started[of "[?print] @ rel @ evs"] by blast
              show "err' = DivisionByZero \<or> err' = LengthError \<or> (\<exists>c. err' = ClError c)"
                if "snd y = Inl err'" for err' using that fail by blast
            qed
          qed
        qed
      qed
    qed
  qed
qed


lemma not_sublist_kernel: "\<not> sublist (token h) ''kernel''"
proof -
  have "find_first (token h) ''kernel'' = None" by (cases h) simp_all
  then show ?thesis by (rule iffD1[OF find_first_None_iff])
qed

lemma not_sublist_angle_token:
  "\<not> sublist (token MINUS_PI_over_N_GLOBAL) ''p=replace_N_LOCAL_BUTTERFLIES''"
proof -
  have "find_first (token MINUS_PI_over_N_GLOBAL) ''p=replace_N_LOCAL_BUTTERFLIES'' = None"
    by simp
  then show ?thesis by (rule iffD1[OF find_first_None_iff])
qed

text \<open>
  Claim C7, amended: a placeholder token that does not occur in the template raises no
  error. \<open>ReplaceString\<close> returns a text in which its token does not occur as it is, and
  a template with none of the four tokens is returned unchanged by the instantiation.
  Whenever the constructor returns, it has handed the instantiated text to the compiler:
  the first call it logged creates the program from the text instantiated for the count 1
  (unless building that text threw, and nothing was logged), every program it created
  was created from a text that the instantiation returned for some count, and the only
  failures it can end with are a platform call's status, a division by a zero work-group
  size and the exception of the string library.
\<close>

theorem missing_placeholder_no_error:
  "(\<not> sublist (token h) s \<longrightarrow> ReplaceString max_size s (token h) v = Some (Inr s))
   \<and> ((\<forall>h. \<not> sublist (token h) template) \<longrightarrow>
        replaced_str max_size template buf nB n = Some (Inr template))
   \<and> (ScopedKernel_ctor p kernel_src input_size = Some (out, res) \<longrightarrow>
        ((out = [] \<and> res = Inl LengthError)
         \<or> (\<exists>src rest.
               replaced_str (string_max_size p) kernel_src
                 (angle_literal p (ucast (input_size div 2))) (ucast (input_size div 2)) 1
                 = Some (Inr src)
             \<and> out = CreateProgramWithSource src # rest))
      \<and> (\<forall>src. CreateProgramWithSource src \<in> set out \<longrightarrow>
            (\<exists>n. replaced_str (string_max_size p) kernel_src
                   (angle_literal p (ucast (input_size div 2))) (ucast (input_size div 2)) n
                   = Some (Inr src)))
      \<and> (\<forall>err. res = Inl err \<longrightarrow>
            err = DivisionByZero \<or> err = LengthError \<or> (\<exists>c. err = ClError c)))"
proof (intro conjI impI)
  assume "\<not> sublist (token h) s"
  then show "ReplaceString max_size s (token h) v = Some (Inr s)"
    by (rule ReplaceString_absent)
next
  assume "\<forall>h. \<not> sublist (token h) template"
  then show "replaced_str max_size template buf nB n = Some (Inr template)"
    by (rule replaced_str_no_placeholder)
next
  assume "ScopedKernel_ctor p kernel_src input_size = Some (out, res)"
  then have "loop_log_ok p kernel_src (ucast (input_size div 2)) 1 [] (out, res)"
    unfolding ScopedKernel_ctor_def by (rule ScopedKernel_loop_log_aux)
  then have ok: "(\<forall>s. CreateProgramWithSource s \<in> set out \<longrightarrow>
              (\<exists>n'. replaced_str (string_max_size p) kernel_src
                      (angle_literal p (ucast (input_size div 2))) (ucast (input_size div 2)) n'
                      = Some (Inr s)))
        \<and> ((out = [] \<and> res = Inl LengthError)
            \<or> (\<exists>src rest. replaced_str (string_max_size p) kernel_src
                    (angle_literal p (ucast (input_size div 2))) (ucast (input_size div 2)) 1
                    = Some (Inr src) \<and> out = CreateProgramWithSource src # rest))
        \<and> (\<forall>err. res = Inl err \<longrightarrow>
              err = DivisionByZero \<or> err = LengthError \<or> (\<exists>c. err = ClError c))"
    unfolding loop_log_ok_def by simp
  from ok show "(out = [] \<and> res = Inl LengthError)
         \<or> (\<exists>src rest.
               replaced_str (string_max_size p) kernel_src
                 (angle_literal p (ucast (input_size div 2))) (ucast (input_size div 2)) 1
                 = Some (Inr src)
             \<and> out = CreateProgramWithSource src # rest)"
    by (rule conjunct1[OF conjunct2])
  from ok show "\<forall>src. CreateProgramWithSource src \<in> set out \<longrightarrow>
            (\<exists>n. replaced_str (string_max_size p) kernel_src
                   (angle_literal p (ucast (input_size div 2))) (ucast (input_size div 2)) n
                   = Some (Inr src))"
    by (rule conjunct1)
  from ok show "\<forall>err. res = Inl err \<longrightarrow>
            err = DivisionByZero \<or> err = LengthError \<or> (\<exists>c. err = ClError c)"
    by (rule conjunct2[OF conjunct2])
qed

text \<open>
  The theorem on a template that lacks three of the four tokens: no error, and the text
  that reaches the compiler is the instantiated one, \<open>p=1\<close>.
\<close>

theorem missing_placeholder_no_error_witness:
  "\<not> sublist (token MINUS_PI_over_N_GLOBAL) ''p=replace_N_LOCAL_BUTTERFLIES''
   \<and> ReplaceString 4611686018427387903 ''p=replace_N_LOCAL_BUTTERFLIES''
        (token MINUS_PI_over_N_GLOBAL) ''-0x1.921fb6p-1'' = Some (Inr ''p=replace_N_LOCAL_BUTTERFLIES'')
   \<and> ScopedKernel_ctor (easy_platform 4) ''p=replace_N_LOCAL_BUTTERFLIES'' 8 =
       Some ([CreateProgramWithSource ''p=1'', BuildProgram, CreateKernel,
              GetKernelWorkGroupInfo, PrintWorkgroupMaxSize 4 1],
             Inr \<lparr>program = 0, kernel = 0, nButterfliesPerThread = 1\<rparr>)
   \<and> (\<exists>src rest.
         replaced_str (string_max_size (easy_platform 4)) ''p=replace_N_LOCAL_BUTTERFLIES''
           (angle_literal (easy_platform 4) (ucast ((8 :: size_t) div 2)))
           (ucast ((8 :: size_t) div 2)) 1 = Some (Inr src)
       \<and> [CreateProgramWithSource ''p=1'', BuildProgram, CreateKernel,
              GetKernelWorkGroupInfo, PrintWorkgroupMaxSize 4 1]
           = CreateProgramWithSource src # rest)"
proof -
  note inst = missing_placeholder_no_error
    [where h = MINUS_PI_over_N_GLOBAL and s = "''p=replace_N_LOCAL_BUTTERFLIES''"
      and max_size = 4611686018427387903 and v = "''-0x1.921fb6p-1''"
      and p = "easy_platform 4" and kernel_src = "''p=replace_N_LOCAL_BUTTERFLIES''"
      and input_size = 8
      and out = "[CreateProgramWithSource ''p=1'', BuildProgram, CreateKernel,
              GetKernelWorkGroupInfo, PrintWorkgroupMaxSize 4 1]"
      and res = "Inr \<lparr>program = 0, kernel = 0, nButterfliesPerThread = 1\<rparr>"]
  have absent: "\<not> sublist (token MINUS_PI_over_N_GLOBAL) ''p=replace_N_LOCAL_BUTTERFLIES''"
    by (rule not_sublist_angle_token)
  have run: "ScopedKernel_ctor (easy_platform 4) ''p=replace_N_LOCAL_BUTTERFLIES'' 8 =
       Some ([CreateProgramWithSource ''p=1'', BuildProgram, CreateKernel,
              GetKernelWorkGroupInfo, PrintWorkgroupMaxSize 4 1],
             Inr \<lparr>program = 0, kernel = 0, nButterfliesPerThread = 1\<rparr>)"
    by (simp add: eval_simps)
  from inst have "\<not> sublist (token MINUS_PI_over_N_GLOBAL) ''p=replace_N_LOCAL_BUTTERFLIES'' \<longrightarrow>
      ReplaceString 4611686018427387903 ''p=replace_N_LOCAL_BUTTERFLIES''
        (token MINUS_PI_over_N_GLOBAL) ''-0x1.921fb6p-1'' = Some (Inr ''p=replace_N_LOCAL_BUTTERFLIES'')"
    by (rule conjunct1)
  from mp[OF this absent] have c1: "ReplaceString 4611686018427387903 ''p=replace_N_LOCAL_BUTTERFLIES''
        (token MINUS_PI_over_N_GLOBAL) ''-0x1.921fb6p-1'' = Some (Inr ''p=replace_N_LOCAL_BUTTERFLIES'')" .
  from inst have imp: "ScopedKernel_ctor (easy_platform 4) ''p=replace_N_LOCAL_BUTTERFLIES'' 8 =
       Some ([CreateProgramWithSource ''p=1'', BuildProgram, CreateKernel,
              GetKernelWorkGroupInfo, PrintWorkgroupMaxSize 4 1],
             Inr \<lparr>program = 0, kernel = 0, nButterfliesPerThread = 1\<rparr>) \<longrightarrow>
      (([CreateProgramWithSource ''p=1'', BuildProgram, CreateKernel,
              GetKernelWorkGroupInfo, PrintWorkgroupMaxSize 4 1] = []
          \<and> (Inr \<lparr>program = 0, kernel = 0, nButterfliesPerThread = 1\<rparr>
                :: failure + ScopedKernel) = Inl LengthError)
       \<or> (\<exists>src rest.
         replaced_str (string_max_size (easy_platform 4)) ''p=replace_N_LOCAL_BUTTERFLIES''
           (angle_literal (easy_platform 4) (ucast ((8 :: size_t) div 2)))
           (ucast ((8 :: size_t) div 2)) 1 = Some (Inr src)
       \<and> [CreateProgramWithSource ''p=1'', BuildProgram, CreateKernel,
              GetKernelWorkGroupInfo, PrintWorkgroupMaxSize 4 1]
           = CreateProgramWithSource src # rest))
      \<and> (\<forall>src. CreateProgramWithSource src \<in> set [CreateProgramWithSource ''p=1'', BuildProgram,
              CreateKernel, GetKernelWorkGroupInfo, PrintWorkgroupMaxSize 4 1] \<longrightarrow>
            (\<exists>n. replaced_str (string_max_size (easy_platform 4)) ''p=replace_N_LOCAL_BUTTERFLIES''
                   (angle_literal (easy_platform 4) (ucast ((8 :: size_t) div 2)))
                   (ucast ((8 :: size_t) div 2)) n = Some (Inr src)))
      \<and> (\<forall>err. (Inr \<lparr>program = 0, kernel = 0, nButterfliesPerThread = 1\<rparr>
                :: failure + ScopedKernel) = Inl err \<longrightarrow>
            err = DivisionByZero \<or> err = LengthError \<or> (\<exists>c. err = ClError c))"
    by (rule conjunct2[OF conjunct2])
  from conjunct1[OF mp[OF imp run]]
  have c3: "\<exists>src rest.
         replaced_str (string_max_size (easy_platform 4)) ''p=replace_N_LOCAL_BUTTERFLIES''
           (angle_literal (easy_platform 4) (ucast ((8 :: size_t) div 2)))
           (ucast ((8 :: size_t) div 2)) 1 = Some (Inr src)
       \<and> [CreateProgramWithSource ''p=1'', BuildProgram, CreateKernel,
              GetKernelWorkGroupInfo, PrintWorkgroupMaxSize 4 1]
           = CreateProgramWithSource src # rest"
    by (elim disjE) simp_all
  show ?thesis
    apply (rule conjI, rule absent)
    apply (rule conjI, rule c1)
    apply (rule conjI, rule run)
    apply (rule c3)
    done
qed

text \<open>
  The claim as stated fails: for the template \<open>kernel\<close>, which has none of the tokens, the
  constructor hands the template to the compiler unchanged and returns an accepted
  configuration.
\<close>

theorem missing_placeholder_counterexample:
  "\<not> sublist (token MINUS_PI_over_N_GLOBAL) ''kernel''
   \<and> \<not> sublist (token N_GLOBAL) ''kernel''
   \<and> \<not> sublist (token LOG2_N_GLOBAL) ''kernel''
   \<and> \<not> sublist (token N_LOCAL) ''kernel''
   \<and> ScopedKernel_ctor (easy_platform 4) ''kernel'' 8 =
       Some ([CreateProgramWithSource ''kernel'', BuildProgram, CreateKernel,
              GetKernelWorkGroupInfo, PrintWorkgroupMaxSize 4 1],
             Inr \<lparr>program = 0, kernel = 0, nButterfliesPerThread = 1\<rparr>)"
proof -
  have run: "ScopedKernel_ctor (easy_platform 4) ''kernel'' 8 =
       Some ([CreateProgramWithSource ''kernel'', BuildProgram, CreateKernel,
              GetKernelWorkGroupInfo, PrintWorkgroupMaxSize 4 1],
             Inr \<lparr>program = 0, kernel = 0, nButterfliesPerThread = 1\<rparr>)"
    by (simp add: eval_simps)
  show ?thesis
    apply (rule conjI, rule not_sublist_kernel)
    apply (rule conjI, rule not_sublist_kernel)
    apply (rule conjI, rule not_sublist_kernel)
    apply (rule conjI, rule not_sublist_kernel)
    apply (rule run)
    done
qed

section \<open>Properties of \<open>withInput\<close>\<close>

subsection \<open>Steps\<close>

lemma and_then_Inr_iff:
  "and_then m f = (out, Inr y) \<longleftrightarrow>
     (\<exists>out1 x. m = (out1, Inr x) \<and> out = out1 @ fst (f x) \<and> snd (f x) = Inr y)"
  by (cases m; cases "snd m") (auto simp: and_then_def)

lemma in_and_then:
  "e \<in> set (fst (and_then m f)) \<Longrightarrow>
     e \<in> set (fst m) \<or> (\<exists>out x. m = (out, Inr x) \<and> e \<in> set (fst (f x)))"
  by (cases m; cases "snd m") (auto simp: and_then_def)

lemma snd_CHECK_CL_ERROR_None_iff:
  "snd (CHECK_CL_ERROR calls) = None \<longleftrightarrow> (\<forall>c \<in> set calls. snd c = CL_SUCCESS)"
  by (induction calls) (auto split: if_splits)

lemma fst_CHECK_CL_ERROR_None:
  "snd (CHECK_CL_ERROR calls) = None \<Longrightarrow> fst (CHECK_CL_ERROR calls) = map fst calls"
  by (induction calls) (auto split: if_splits)

lemma CHECK_CL_ERROR_None_iff:
  "CHECK_CL_ERROR calls = (out, None) \<longleftrightarrow>
     out = map fst calls \<and> (\<forall>c \<in> set calls. snd c = CL_SUCCESS)"
proof -
  have "CHECK_CL_ERROR calls = (out, None) \<longleftrightarrow>
      fst (CHECK_CL_ERROR calls) = out \<and> snd (CHECK_CL_ERROR calls) = None"
    by (cases "CHECK_CL_ERROR calls") simp
  also have "\<dots> \<longleftrightarrow> out = map fst calls \<and> snd (CHECK_CL_ERROR calls) = None"
    using fst_CHECK_CL_ERROR_None[of calls] by auto
  finally show ?thesis by (simp only: snd_CHECK_CL_ERROR_None_iff)
qed

lemma in_cl_calls: "e \<in> set (fst (cl_calls calls)) \<Longrightarrow> e \<in> fst ` set calls"
  using fst_CHECK_CL_ERROR_subset[of calls]
  by (cases "CHECK_CL_ERROR calls"; cases "snd (CHECK_CL_ERROR calls)")
    (auto simp: cl_calls_def)

lemma cl_calls_Inr_iff:
  "cl_calls calls = (out, Inr u) \<longleftrightarrow>
     out = map fst calls \<and> (\<forall>c \<in> set calls. snd c = CL_SUCCESS)"
proof -
  have "cl_calls calls = (out, Inr u) \<longleftrightarrow> CHECK_CL_ERROR calls = (out, None)"
    by (cases "CHECK_CL_ERROR calls"; cases "snd (CHECK_CL_ERROR calls)")
      (auto simp: cl_calls_def)
  then show ?thesis by (simp only: CHECK_CL_ERROR_None_iff)
qed

lemma verify_Inr_iff: "verify ok = (out, Inr u) \<longleftrightarrow> ok \<and> out = []"
  by (auto simp: verify_def)

lemma emit_Inr_iff: "emit evs = (out, Inr u) \<longleftrightarrow> out = evs"
  by (auto simp: emit_def)

lemma return_value_Inr_iff: "return_value x = (out, Inr y) \<longleftrightarrow> out = [] \<and> y = x"
  by (auto simp: return_value_def)

lemma benchmark_events:
  "e \<in> set (fst (benchmark dev g l i elapsed)) \<Longrightarrow>
     e \<in> {EnqueueNDRangeKernel g l, WaitForEvents,
          GetEventProfilingInfo CL_PROFILING_COMMAND_START,
          GetEventProfilingInfo CL_PROFILING_COMMAND_END}"
proof (induction dev g l i elapsed rule: benchmark.induct)
  case (1 dev g l i elapsed)
  show ?case
  proof (cases "i < nSkipIterations + nIterations")
    case True
    let ?calls = "[(EnqueueNDRangeKernel g l, enqueueNDRangeKernel dev i),
             (WaitForEvents, waitForEvents dev i),
             (GetEventProfilingInfo CL_PROFILING_COMMAND_START,
                getEventProfilingInfo dev i CL_PROFILING_COMMAND_START),
             (GetEventProfilingInfo CL_PROFILING_COMMAND_END,
                getEventProfilingInfo dev i CL_PROFILING_COMMAND_END)]"
    let ?next = "benchmark dev g l (Suc i)
                 (if nSkipIterations \<le> i
                  then elapsed + real (unat (time_end dev i - time_start dev i))
                  else elapsed)"
    have "benchmark dev g l i elapsed = and_then (cl_calls ?calls) (\<lambda>_. ?next)"
      using True by (subst benchmark.simps) (simp only: if_True)
    with "1.prems" have "e \<in> set (fst (and_then (cl_calls ?calls) (\<lambda>_. ?next)))"
      by simp
    then consider "e \<in> set (fst (cl_calls ?calls))" | "e \<in> set (fst ?next)"
      by (blast dest: in_and_then)
    then show ?thesis
    proof cases
      case 1
      from in_cl_calls[OF this] show ?thesis by auto
    next
      case 2
      from "1.IH"[OF True this] show ?thesis .
    qed
  next
    case False
    then have "benchmark dev g l i elapsed = return_value elapsed"
      by (subst benchmark.simps) (simp only: if_False)
    with "1.prems" show ?thesis by (simp add: return_value_def)
  qed
qed

lemma benchmark_Inr:
  assumes "benchmark dev g l i elapsed = (out, Inr acc)" and "i \<le> nSkipIterations + nIterations"
  shows "out = concat (replicate (nSkipIterations + nIterations - i)
            [EnqueueNDRangeKernel g l, WaitForEvents,
             GetEventProfilingInfo CL_PROFILING_COMMAND_START,
             GetEventProfilingInfo CL_PROFILING_COMMAND_END])
       \<and> acc = elapsed + (\<Sum>j = max i nSkipIterations..<nSkipIterations + nIterations.
                     real (unat (time_end dev j - time_start dev j)))"
  using assms
proof (induction dev g l i elapsed arbitrary: out rule: benchmark.induct)
  case (1 dev g l i elapsed)
  show ?case
  proof (cases "i < nSkipIterations + nIterations")
    case True
    let ?calls = "[(EnqueueNDRangeKernel g l, enqueueNDRangeKernel dev i),
             (WaitForEvents, waitForEvents dev i),
             (GetEventProfilingInfo CL_PROFILING_COMMAND_START,
                getEventProfilingInfo dev i CL_PROFILING_COMMAND_START),
             (GetEventProfilingInfo CL_PROFILING_COMMAND_END,
                getEventProfilingInfo dev i CL_PROFILING_COMMAND_END)]"
    let ?e = "if nSkipIterations \<le> i
                  then elapsed + real (unat (time_end dev i - time_start dev i))
                  else elapsed"
    have "benchmark dev g l i elapsed
        = and_then (cl_calls ?calls) (\<lambda>_. benchmark dev g l (Suc i) ?e)"
      using True by (subst benchmark.simps) (simp only: if_True)
    with "1.prems"(1) have
      "and_then (cl_calls ?calls) (\<lambda>_. benchmark dev g l (Suc i) ?e) = (out, Inr acc)"
      by simp
    then obtain out1 where c: "cl_calls ?calls = (out1, Inr ())"
      and out: "out = out1 @ fst (benchmark dev g l (Suc i) ?e)"
      and r: "snd (benchmark dev g l (Suc i) ?e) = Inr acc"
      unfolding and_then_Inr_iff by auto
    from c have out1: "out1 = map fst ?calls" unfolding cl_calls_Inr_iff by simp
    from r have rest: "benchmark dev g l (Suc i) ?e
        = (fst (benchmark dev g l (Suc i) ?e), Inr acc)"
      by (simp add: prod_eq_iff)
    from True have le: "Suc i \<le> nSkipIterations + nIterations" by simp
    note IH = "1.IH"[OF True rest le]
    from True have rep: "nSkipIterations + nIterations - i
        = Suc (nSkipIterations + nIterations - Suc i)" by simp
    have sum: "?e + (\<Sum>j = max (Suc i) nSkipIterations..<nSkipIterations + nIterations.
                     real (unat (time_end dev j - time_start dev j)))
       = elapsed + (\<Sum>j = max i nSkipIterations..<nSkipIterations + nIterations.
                     real (unat (time_end dev j - time_start dev j)))"
    proof (cases "nSkipIterations \<le> i")
      case True
      then have "max i nSkipIterations = i" "max (Suc i) nSkipIterations = Suc i" by simp_all
      with True \<open>i < nSkipIterations + nIterations\<close> show ?thesis
        by (simp add: sum.atLeast_Suc_lessThan)
    next
      case False
      then have "max i nSkipIterations = nSkipIterations"
        "max (Suc i) nSkipIterations = nSkipIterations" by simp_all
      with False show ?thesis by simp
    qed
    have "out = concat (replicate (nSkipIterations + nIterations - i)
            [EnqueueNDRangeKernel g l, WaitForEvents,
             GetEventProfilingInfo CL_PROFILING_COMMAND_START,
             GetEventProfilingInfo CL_PROFILING_COMMAND_END])"
      unfolding rep using IH out out1 by simp
    moreover from IH sum have "acc = elapsed
        + (\<Sum>j = max i nSkipIterations..<nSkipIterations + nIterations.
             real (unat (time_end dev j - time_start dev j)))"
      by simp
    ultimately show ?thesis by (rule conjI)
  next
    case False
    then have "benchmark dev g l i elapsed = return_value elapsed"
      by (subst benchmark.simps) (simp only: if_False)
    with "1.prems" False show ?thesis by (simp add: return_value_def)
  qed
qed

subsection \<open>Events of a run\<close>

lemma events_and_then:
  assumes "\<forall>e \<in> set (fst m). P e"
    and "\<And>out x. m = (out, Inr x) \<Longrightarrow> \<forall>e \<in> set (fst (f x)). P e"
  shows "\<forall>e \<in> set (fst (and_then m f)). P e"
  using assms by (cases m; cases "snd m") (auto simp: and_then_def)

lemma events_if:
  assumes "c \<Longrightarrow> \<forall>e \<in> set (fst a). P e" and "\<not> c \<Longrightarrow> \<forall>e \<in> set (fst b). P e"
  shows "\<forall>e \<in> set (fst (if c then a else b)). P e"
  using assms by simp

lemma events_emit: "\<forall>e \<in> set evs. P e \<Longrightarrow> \<forall>e \<in> set (fst (emit evs)). P e"
  by (simp add: emit_def)

lemma events_verify: "\<forall>e \<in> set (fst (verify ok)). P e"
  by (simp add: verify_def)

lemma events_return_value: "\<forall>e \<in> set (fst (return_value x)). P e"
  by (simp add: return_value_def)

lemma events_cl_calls:
  "\<forall>c \<in> set calls. P (fst c) \<Longrightarrow> \<forall>e \<in> set (fst (cl_calls calls)). P e"
  by (auto dest: in_cl_calls)

lemma events_verify_vectors:
  "P (VerifyVectorsAreEqual a b tolerance) \<Longrightarrow>
     \<forall>e \<in> set (fst (verify_vectors lib a b tolerance)). P e"
  by (simp add: verify_vectors_def split: option.splits)

lemma events_print_avg_kernel_duration:
  "(\<And>avg. P (PrintAvgKernelDuration avg)) \<Longrightarrow>
     \<forall>e \<in> set (fst (print_avg_kernel_duration elapsed)). P e"
  by (auto simp: print_avg_kernel_duration_def emit_def split: option.splits)

lemma events_global_item_size:
  "\<forall>e \<in> set (fst (global_item_size input_size perThread)). P e"
  by (simp add: global_item_size_def return_value_def)

lemma events_benchmark:
  assumes "P (EnqueueNDRangeKernel g l)" and "P WaitForEvents"
    and "P (GetEventProfilingInfo CL_PROFILING_COMMAND_START)"
    and "P (GetEventProfilingInfo CL_PROFILING_COMMAND_END)"
  shows "\<forall>e \<in> set (fst (benchmark dev g l i elapsed)). P e"
  using assms by (auto dest: benchmark_events)

lemma global_item_size_Inr:
  "global_item_size input_size perThread = (out, Inr g) \<Longrightarrow>
     g = input_size div scast (2 * perThread)"
  by (simp add: global_item_size_def return_value_def split: if_splits)

lemmas events_intros = events_and_then events_if events_emit events_verify events_return_value
  events_cl_calls events_verify_vectors events_print_avg_kernel_duration
  events_global_item_size events_benchmark

text \<open>Where the two sizes of an execution come from.\<close>

lemma withInput_enqueue_events:
  "\<forall>e \<in> set (fst (withInput dev lib perThread input verifyResults)).
     \<forall>g l. e = EnqueueNDRangeKernel g l \<longrightarrow>
       l = g \<and> g = of_nat (length input) div scast (2 * perThread)"
  unfolding withInput_def Let_def
  by (intro events_intros) (simp_all add: global_item_size_Inr)

text \<open>The request for local memory is made only after the check, with the size checked.\<close>

lemma withInput_local_memory_events:
  "\<forall>e \<in> set (fst (withInput dev lib perThread input verifyResults)).
     \<forall>a. e = SetKernelArg 2 a \<longrightarrow>
       a = LocalMemory (2 * sizeof_float * 2 * of_nat (length input))
       \<and> \<not> local_mem_sz dev < 2 * of_nat (length input) * sizeof_complex_float"
  unfolding withInput_def Let_def
  by (intro events_intros) simp_all

subsection \<open>Complete runs\<close>

lemma and_then_eq_Inr:
  "and_then m f = (out, Inr y) \<longleftrightarrow>
     (\<exists>out1 x out2. m = (out1, Inr x) \<and> f x = (out2, Inr y) \<and> out = out1 @ out2)"
  by (cases m; cases "snd m"; cases "f (projr (snd m))") (auto simp: and_then_def)

lemma verify_vectors_Inr_iff:
  "verify_vectors lib a b tolerance = (out, Inr u) \<longleftrightarrow>
     verifyVectorsAreEqual lib a b tolerance = None \<and> out = [VerifyVectorsAreEqual a b tolerance]"
  by (auto simp: verify_vectors_def split: option.splits)

lemma print_avg_kernel_duration_Inr_iff:
  "print_avg_kernel_duration elapsed = (out, Inr u) \<longleftrightarrow>
     (\<exists>ns. double_to_int (elapsed / real nIterations) = Some ns
        \<and> out = [PrintAvgKernelDuration (int_div ns 1000)])"
  by (auto simp: print_avg_kernel_duration_def emit_def split: option.splits)

lemma global_item_size_Inr_iff:
  "global_item_size input_size perThread = (out, Inr g) \<longleftrightarrow>
     out = [] \<and> g = input_size div scast (2 * perThread)
     \<and> \<not> (2 * sint perThread < - (2 ^ 31) \<or> 2 ^ 31 \<le> 2 * sint perThread)
     \<and> (scast (2 * perThread) :: size_t) \<noteq> 0"
  by (auto simp: global_item_size_def return_value_def)

text \<open>The time that the source adds to \<open>elapsed\<close> for execution \<open>i\<close>.\<close>

lemma benchmark_succeeds:
  assumes ok: "\<And>j. enqueueNDRangeKernel dev j = CL_SUCCESS"
    "\<And>j. waitForEvents dev j = CL_SUCCESS"
    "\<And>j info. getEventProfilingInfo dev j info = CL_SUCCESS"
  shows "\<exists>out acc. benchmark dev g l i elapsed = (out, Inr acc)"
proof (induction "nSkipIterations + nIterations - i" arbitrary: i elapsed)
  case 0
  then have "\<not> i < nSkipIterations + nIterations" by simp
  then have "benchmark dev g l i elapsed = return_value elapsed"
    by (subst benchmark.simps) (simp only: if_False)
  then show ?case by (simp add: return_value_def)
next
  case (Suc n)
  then have lt: "i < nSkipIterations + nIterations" by simp
  let ?calls = "[(EnqueueNDRangeKernel g l, enqueueNDRangeKernel dev i),
             (WaitForEvents, waitForEvents dev i),
             (GetEventProfilingInfo CL_PROFILING_COMMAND_START,
                getEventProfilingInfo dev i CL_PROFILING_COMMAND_START),
             (GetEventProfilingInfo CL_PROFILING_COMMAND_END,
                getEventProfilingInfo dev i CL_PROFILING_COMMAND_END)]"
  let ?e = "if nSkipIterations \<le> i
                  then elapsed + real (unat (time_end dev i - time_start dev i))
                  else elapsed"
  have unfold: "benchmark dev g l i elapsed
        = and_then (cl_calls ?calls) (\<lambda>_. benchmark dev g l (Suc i) ?e)"
    using lt by (subst benchmark.simps) (simp only: if_True)
  have calls: "cl_calls ?calls = (map fst ?calls, Inr ())"
    unfolding cl_calls_Inr_iff by (simp add: ok)
  from Suc.hyps(2) have "n = nSkipIterations + nIterations - Suc i" by simp
  from Suc.hyps(1)[OF this, of ?e] obtain out acc where
    "benchmark dev g l (Suc i) ?e = (out, Inr acc)" by blast
  with calls have "and_then (cl_calls ?calls) (\<lambda>_. benchmark dev g l (Suc i) ?e)
      = (map fst ?calls @ out, Inr acc)"
    unfolding and_then_eq_Inr by blast
  with unfold show ?case by simp
qed

lemma benchmark_run:
  assumes "\<And>j. enqueueNDRangeKernel dev j = CL_SUCCESS"
    "\<And>j. waitForEvents dev j = CL_SUCCESS"
    "\<And>j info. getEventProfilingInfo dev j info = CL_SUCCESS"
  shows "benchmark dev g l 0 0 =
    (concat (replicate (nSkipIterations + nIterations)
            [EnqueueNDRangeKernel g l, WaitForEvents,
             GetEventProfilingInfo CL_PROFILING_COMMAND_START,
             GetEventProfilingInfo CL_PROFILING_COMMAND_END]),
     Inr (\<Sum>j = nSkipIterations..<nSkipIterations + nIterations.
             real (unat (time_end dev j - time_start dev j))))"
proof -
  from benchmark_succeeds[OF assms, of g l 0 0] obtain out acc where
    run: "benchmark dev g l 0 0 = (out, Inr acc)" by blast
  from benchmark_Inr[OF run] run show ?thesis by simp
qed
end
